theory Spec2Isabelle
  imports Main "HOL-Library.Word"
begin

unbundle bit_operations_syntax

section \<open>Data model of \<open>BMPImageEditor\<close>\<close>

text \<open>
  The class \<open>BMPImageEditor\<close> of \<open>src/BMPImageEditor.cpp\<close> holds two packed structs, a
  matrix of packed colours and a flag. The structs are records of machine words
  (\<open>uint16_t\<close> is \<open>16 word\<close>, \<open>uint32_t\<close> and \<open>int32_t\<close> are \<open>32 word\<close>), the matrix
  \<open>std::vector<std::vector<uint32_t>>\<close> is a list of rows. The three glyph strings of the
  class are used by \<open>printImage\<close> only and are left out.
\<close>

type_synonym byte = "8 word"

record BMPFileHeader =
  type_of_file :: "16 word"
  size_of_file :: "32 word"
  reserved_1 :: "16 word"
  reserved_2 :: "16 word"
  offset_to_pixel_data :: "32 word"

record BMPFileInfoBlock =
  size_of_info_block :: "32 word"
  width :: "32 word"
  height :: "32 word"
  count_of_planes :: "16 word"
  color_depth_in_bits :: "16 word"
  type_of_compression :: "32 word"
  size_of_image :: "32 word"
  horizontal_resolution :: "32 word"
  vertical_resolution :: "32 word"
  count_of_colors :: "32 word"
  count_of_important_colors :: "32 word"

record BMPImageEditor =
  file_header :: BMPFileHeader
  info_block :: BMPFileInfoBlock
  pixels :: "32 word list list"
  fileWasRead :: bool

subsection \<open>The memory image of the packed structs\<close>

text \<open>
  \<open>read\<close> and \<open>save\<close> move the structs as raw memory (\<open>reinterpret_cast<char*>\<close> under
  \<open>#pragma pack(push, 1)\<close>). The image of a struct is the concatenation of its fields in
  declaration order, each field little-endian (the byte order of the hosts the program is
  built for, and the order of the BMP format).
\<close>

definition slice :: "nat \<Rightarrow> nat \<Rightarrow> 'a list \<Rightarrow> 'a list" where
  "slice off n xs = take n (drop off xs)"

definition u16_of_bytes :: "byte list \<Rightarrow> 16 word" where
  "u16_of_bytes m = ucast (m ! 0) OR push_bit 8 (ucast (m ! 1))"

definition u32_of_bytes :: "byte list \<Rightarrow> 32 word" where
  "u32_of_bytes m = ucast (m ! 0) OR push_bit 8 (ucast (m ! 1))
     OR push_bit 16 (ucast (m ! 2)) OR push_bit 24 (ucast (m ! 3))"

definition bytes_of_u16 :: "16 word \<Rightarrow> byte list" where
  "bytes_of_u16 v = [ucast v, ucast (drop_bit 8 v)]"

definition bytes_of_u32 :: "32 word \<Rightarrow> byte list" where
  "bytes_of_u32 v = [ucast v, ucast (drop_bit 8 v), ucast (drop_bit 16 v), ucast (drop_bit 24 v)]"

definition sizeof_BMPFileHeader :: nat where
  "sizeof_BMPFileHeader = 14"

definition sizeof_BMPFileInfoBlock :: nat where
  "sizeof_BMPFileInfoBlock = 40"

definition bytes_of_file_header :: "BMPFileHeader \<Rightarrow> byte list" where
  "bytes_of_file_header h =
     bytes_of_u16 (type_of_file h) @ bytes_of_u32 (size_of_file h)
     @ bytes_of_u16 (reserved_1 h) @ bytes_of_u16 (reserved_2 h)
     @ bytes_of_u32 (offset_to_pixel_data h)"

definition file_header_of_bytes :: "byte list \<Rightarrow> BMPFileHeader" where
  "file_header_of_bytes m =
     \<lparr> type_of_file = u16_of_bytes (slice 0 2 m),
       size_of_file = u32_of_bytes (slice 2 4 m),
       reserved_1 = u16_of_bytes (slice 6 2 m),
       reserved_2 = u16_of_bytes (slice 8 2 m),
       offset_to_pixel_data = u32_of_bytes (slice 10 4 m) \<rparr>"

definition bytes_of_info_block :: "BMPFileInfoBlock \<Rightarrow> byte list" where
  "bytes_of_info_block b =
     bytes_of_u32 (size_of_info_block b) @ bytes_of_u32 (width b) @ bytes_of_u32 (height b)
     @ bytes_of_u16 (count_of_planes b) @ bytes_of_u16 (color_depth_in_bits b)
     @ bytes_of_u32 (type_of_compression b) @ bytes_of_u32 (size_of_image b)
     @ bytes_of_u32 (horizontal_resolution b) @ bytes_of_u32 (vertical_resolution b)
     @ bytes_of_u32 (count_of_colors b) @ bytes_of_u32 (count_of_important_colors b)"

definition info_block_of_bytes :: "byte list \<Rightarrow> BMPFileInfoBlock" where
  "info_block_of_bytes m =
     \<lparr> size_of_info_block = u32_of_bytes (slice 0 4 m),
       width = u32_of_bytes (slice 4 4 m),
       height = u32_of_bytes (slice 8 4 m),
       count_of_planes = u16_of_bytes (slice 12 2 m),
       color_depth_in_bits = u16_of_bytes (slice 14 2 m),
       type_of_compression = u32_of_bytes (slice 16 4 m),
       size_of_image = u32_of_bytes (slice 20 4 m),
       horizontal_resolution = u32_of_bytes (slice 24 4 m),
       vertical_resolution = u32_of_bytes (slice 28 4 m),
       count_of_colors = u32_of_bytes (slice 32 4 m),
       count_of_important_colors = u32_of_bytes (slice 36 4 m) \<rparr>"

subsection \<open>Outcomes\<close>

text \<open>
  Every \<open>throw std::runtime_error\<close> of the source is one constructor of \<open>error\<close>, named after
  the error kind of the specification that the message stands for:
  \<^item> \<open>IoOpenError\<close>: "Error! It's not possible to open the file on the path ...";
  \<^item> \<open>ReadFailure\<close>: "Oops! An error occurred while reading the file." (\<open>check_error\<close>);
  \<^item> \<open>NotABmpFile\<close>: "Error! The specified file is not of the BMP type.";
  \<^item> \<open>UnsupportedColorDepth\<close>: "Error! This class only works with images with a color
    depth of 24 bits.";
  \<^item> \<open>InvalidState\<close>: "Error! First you need to read the data from the file.".
  The source has no other \<open>throw\<close>. A method that throws leaves the object as it was at the
  \<open>throw\<close>, so every method returns the outcome together with the object.
  \<open>UndefinedBehaviour\<close> marks the runs the C++ standard gives no meaning to: a
  \<open>std::vector\<close> indexed out of range by \<open>operator[]\<close>, or an \<open>int\<close> counter incremented
  past \<open>INT_MAX\<close>. Memory allocation is taken to succeed.
\<close>

datatype error = IoOpenError | ReadFailure | NotABmpFile | UnsupportedColorDepth | InvalidState

datatype outcome = Returned | Threw error | UndefinedBehaviour

subsection \<open>The input stream\<close>

text \<open>
  \<open>std::ifstream\<close> over the bytes of the file: the get position and the \<open>failbit\<close>.
  \<open>istream::read\<close> of \<open>n\<close> bytes into a buffer does nothing once \<open>failbit\<close> is set; otherwise
  it stores the bytes that are there at the front of the buffer, and sets \<open>failbit\<close> when
  they are fewer than \<open>n\<close>. \<open>seekg\<close> does nothing once \<open>failbit\<close> is set; on a file it may
  move past the end, and the next \<open>read\<close> finds nothing there.
\<close>

record ifstream =
  contents :: "byte list"
  gpos :: nat
  failbit :: bool

definition ifstream_open :: "byte list \<Rightarrow> ifstream" where
  "ifstream_open data = \<lparr> contents = data, gpos = 0, failbit = False \<rparr>"

definition ifstream_read :: "nat \<Rightarrow> byte list \<Rightarrow> ifstream \<Rightarrow> byte list \<times> ifstream" where
  "ifstream_read n buf s =
     (if failbit s then (buf, s)
      else let got = take n (drop (gpos s) (contents s))
           in (got @ drop (length got) buf,
               s\<lparr> gpos := gpos s + length got, failbit := length got < n \<rparr>))"

definition seekg_beg :: "nat \<Rightarrow> ifstream \<Rightarrow> ifstream" where
  "seekg_beg off s = (if failbit s then s else s\<lparr> gpos := off \<rparr>)"

definition seekg_cur :: "nat \<Rightarrow> ifstream \<Rightarrow> ifstream" where
  "seekg_cur k s = (if failbit s then s else s\<lparr> gpos := gpos s + k \<rparr>)"

text \<open>\<open>uint8_t b = 0; inp_file.read(reinterpret_cast<char*>(&b), sizeof(uint8_t));\<close>\<close>

definition read_u8 :: "ifstream \<Rightarrow> byte \<times> ifstream" where
  "read_u8 s = (case ifstream_read 1 [0] s of (m, s') \<Rightarrow> (hd m, s'))"

section \<open>\<open>BMPImageEditor::read\<close>\<close>

text \<open>\<open>uint32_t color = (blue << 16) | (green << 8) | red;\<close>\<close>

definition pack_color :: "byte \<Rightarrow> byte \<Rightarrow> byte \<Rightarrow> 32 word" where
  "pack_color blue green red = push_bit 16 (ucast blue) OR push_bit 8 (ucast green) OR ucast red"

text \<open>
  \<open>int bytes_per_pixel = info_block.color_depth_in_bits / 8;\<close> and
  \<open>int row_size = (info_block.width * bytes_per_pixel + 3) & (~3);\<close>: the product is taken
  in \<open>uint32_t\<close>, since \<open>width\<close> is unsigned.
\<close>

definition bytes_per_pixel :: "BMPFileInfoBlock \<Rightarrow> 32 word" where
  "bytes_per_pixel b = ucast (color_depth_in_bits b div 8)"

definition row_size :: "BMPFileInfoBlock \<Rightarrow> 32 word" where
  "row_size b = (width b * bytes_per_pixel b + 3) AND NOT 3"

text \<open>\<open>int padding = row_size - (info_block.width * bytes_per_pixel);\<close>\<close>

definition padding :: "BMPFileInfoBlock \<Rightarrow> int" where
  "padding b = sint (row_size b - width b * bytes_per_pixel b)"

text \<open>\<open>pixels.resize(info_block.height, std::vector<uint32_t>(info_block.width));\<close>: rows
  that are already there keep their length, new rows are \<open>width\<close> zeros.\<close>

definition resize :: "nat \<Rightarrow> nat \<Rightarrow> 32 word list list \<Rightarrow> 32 word list list" where
  "resize h w px = take h px @ replicate (h - length px) (replicate w 0)"

text \<open>The inner loop \<open>for (int x = 0; x < info_block.width; ++x)\<close> of one disk row.\<close>

function read_row ::
  "nat \<Rightarrow> nat \<Rightarrow> nat \<Rightarrow> ifstream \<Rightarrow> 32 word list list \<Rightarrow> (ifstream \<times> 32 word list list) option"
where
  "read_row x w row_index s px =
     (if x < w then
        (case read_u8 s of (blue, s1) \<Rightarrow>
         case read_u8 s1 of (green, s2) \<Rightarrow>
         case read_u8 s2 of (red, s3) \<Rightarrow>
           if row_index < length px \<and> x < length (px ! row_index)
           then read_row (x + 1) w row_index s3
                  (px[row_index := (px ! row_index)[x := pack_color blue green red]])
           else None)
      else Some (s, px))"
  by pat_completeness auto
termination
  by (relation "measure (\<lambda>(x, w, row_index, s, px). w - x)") auto

declare read_row.simps [simp del]

text \<open>The outer loop \<open>for (int y = 0; y < info_block.height; ++y)\<close>, with
  \<open>int row_index = info_block.height - y - 1\<close> and the skip of the padding.\<close>

function read_rows ::
  "nat \<Rightarrow> nat \<Rightarrow> nat \<Rightarrow> int \<Rightarrow> ifstream \<Rightarrow> 32 word list list \<Rightarrow> (ifstream \<times> 32 word list list) option"
where
  "read_rows y h w pad s px =
     (if y < h then
        (case read_row 0 w (h - y - 1) s px of
           None \<Rightarrow> None
         | Some (s', px') \<Rightarrow>
             read_rows (y + 1) h w pad (if pad > 0 then seekg_cur (nat pad) s' else s') px')
      else Some (s, px))"
  by pat_completeness auto
termination
  by (relation "measure (\<lambda>(y, h, w, pad, s, px). h - y)") auto

declare read_rows.simps [simp del]

text \<open>
  The counters \<open>y\<close> and \<open>x\<close> are \<open>int\<close> and are compared with the \<open>uint32_t\<close> fields as
  unsigned values. When \<open>height\<close> is \<open>2^31\<close> or more, \<open>y\<close> cannot reach it without
  \<open>++y\<close> overflowing; the same holds for \<open>x\<close> and \<open>width\<close> whenever the inner loop is
  entered. Those runs are undefined, and below the bounds the counters are the natural
  numbers of \<open>read_rows\<close> and \<open>read_row\<close>.
\<close>

definition int_counter_overflows :: "BMPFileInfoBlock \<Rightarrow> bool" where
  "int_counter_overflows b \<longleftrightarrow>
     2 ^ 31 \<le> unat (height b) \<or> (0 < unat (height b) \<and> 2 ^ 31 \<le> unat (width b))"

text \<open>
  \<open>read\<close>. The file is \<open>None\<close> when it cannot be opened and its bytes otherwise. The two
  \<open>inp_file.read\<close> calls write into the members \<open>file_header\<close> and \<open>info_block\<close>
  themselves, before any check.
\<close>

definition read :: "byte list option \<Rightarrow> BMPImageEditor \<Rightarrow> outcome \<times> BMPImageEditor" where
  "read file ed =
     (case file of
        None \<Rightarrow> (Threw IoOpenError, ed)
      | Some data \<Rightarrow>
          (case ifstream_read sizeof_BMPFileHeader (bytes_of_file_header (file_header ed))
                  (ifstream_open data) of (m1, s1) \<Rightarrow>
           let ed1 = ed\<lparr> file_header := file_header_of_bytes m1 \<rparr> in
           if failbit s1 then (Threw ReadFailure, ed1) else
           (case ifstream_read sizeof_BMPFileInfoBlock (bytes_of_info_block (info_block ed1)) s1
              of (m2, s2) \<Rightarrow>
            let ed2 = ed1\<lparr> info_block := info_block_of_bytes m2 \<rparr> in
            if failbit s2 then (Threw ReadFailure, ed2)
            else if type_of_file (file_header ed2) \<noteq> 0x4D42 then (Threw NotABmpFile, ed2)
            else if color_depth_in_bits (info_block ed2) \<noteq> 24
              then (Threw UnsupportedColorDepth, ed2)
            else
              let s3 = seekg_beg (unat (offset_to_pixel_data (file_header ed2))) s2;
                  b = info_block ed2;
                  ed3 = ed2\<lparr> pixels := resize (unat (height b)) (unat (width b)) (pixels ed2) \<rparr>
              in if int_counter_overflows b then (UndefinedBehaviour, ed3)
                 else
                   (case read_rows 0 (unat (height b)) (unat (width b)) (padding b) s3 (pixels ed3) of
                      None \<Rightarrow> (UndefinedBehaviour, ed3)
                    | Some (s4, px) \<Rightarrow> (Returned, ed3\<lparr> pixels := px, fileWasRead := True \<rparr>)))))"

section \<open>\<open>BMPImageEditor::drawCross\<close>\<close>

text \<open>
  The loop \<open>for (int i = 0; i < std::min(info_block.height, info_block.width); ++i)\<close> with
  its two assignments \<open>pixels[i][i] = color\<close> and \<open>pixels[i][info_block.width - i - 1] = color\<close>.
  The second column index is computed in \<open>uint32_t\<close>.
\<close>

function drawCross_loop ::
  "nat \<Rightarrow> nat \<Rightarrow> 32 word \<Rightarrow> 32 word \<Rightarrow> 32 word list list \<Rightarrow> 32 word list list option"
where
  "drawCross_loop i n w color px =
     (if i < n then
        (if i < length px \<and> i < length (px ! i) then
           (let px1 = px[i := (px ! i)[i := color]];
                j = unat (w - of_nat i - 1)
            in if j < length (px1 ! i)
               then drawCross_loop (i + 1) n w color (px1[i := (px1 ! i)[j := color]])
               else None)
         else None)
      else Some px)"
  by pat_completeness auto
termination
  by (relation "measure (\<lambda>(i, n, w, color, px). n - i)") auto

declare drawCross_loop.simps [simp del]

definition drawCross :: "byte \<Rightarrow> byte \<Rightarrow> byte \<Rightarrow> BMPImageEditor \<Rightarrow> outcome \<times> BMPImageEditor" where
  "drawCross blue green red ed =
     (if \<not> fileWasRead ed then (Threw InvalidState, ed)
      else
        let color = pack_color blue green red;
            n = min (height (info_block ed)) (width (info_block ed))
        in if 2 ^ 31 \<le> unat n then (UndefinedBehaviour, ed)
           else (case drawCross_loop 0 (unat n) (width (info_block ed)) color (pixels ed) of
                   None \<Rightarrow> (UndefinedBehaviour, ed)
                 | Some px \<Rightarrow> (Returned, ed\<lparr> pixels := px \<rparr>)))"

section \<open>\<open>BMPImageEditor::save\<close>\<close>

text \<open>
  \<open>int32_t row_stride = ((info_block.width * info_block.color_depth_in_bits + 31) / 32) * 4;\<close>,
  again in \<open>uint32_t\<close>. The quotient is below \<open>2^27\<close>, so the conversion to \<open>int32_t\<close>
  and back to \<open>size_t\<close> keeps the value.
\<close>

definition row_stride :: "BMPFileInfoBlock \<Rightarrow> 32 word" where
  "row_stride b = ((width b * ucast (color_depth_in_bits b) + 31) div 32) * 4"

text \<open>The three bytes that \<open>save\<close> takes out of one cell.\<close>

definition blue_of :: "32 word \<Rightarrow> byte" where
  "blue_of p = ucast (drop_bit 16 (p AND push_bit 16 255))"

definition green_of :: "32 word \<Rightarrow> byte" where
  "green_of p = ucast (drop_bit 8 (p AND push_bit 8 255))"

definition red_of :: "32 word \<Rightarrow> byte" where
  "red_of p = ucast (p AND 255)"

text \<open>The inner loop \<open>for (int x = 0; x < info_block.width; ++x)\<close> filling \<open>row_data\<close>.\<close>

function save_row ::
  "nat \<Rightarrow> nat \<Rightarrow> nat \<Rightarrow> 32 word list list \<Rightarrow> byte list \<Rightarrow> byte list option"
where
  "save_row x w y px row_data =
     (if x < w then
        (if y < length px \<and> x < length (px ! y)
         then save_row (x + 1) w y px
                (row_data @ [blue_of (px ! y ! x), green_of (px ! y ! x), red_of (px ! y ! x)])
         else None)
      else Some row_data)"
  by pat_completeness auto
termination
  by (relation "measure (\<lambda>(x, w, y, px, row_data). w - x)") auto

declare save_row.simps [simp del]

text \<open>\<open>while (row_data.size() < static_cast<size_t>(row_stride)) row_data.push_back(0);\<close>\<close>

function pad_row :: "nat \<Rightarrow> byte list \<Rightarrow> byte list" where
  "pad_row stride row_data =
     (if length row_data < stride then pad_row stride (row_data @ [0]) else row_data)"
  by pat_completeness auto
termination
  by (relation "measure (\<lambda>(stride, row_data). stride - length row_data)") auto

declare pad_row.simps [simp del]

text \<open>
  The outer loop \<open>for (int y = info_block.height - 1; y >= 0; --y)\<close>: the first argument
  is \<open>y + 1\<close>, the number of rows still to write.
\<close>

fun save_rows :: "nat \<Rightarrow> nat \<Rightarrow> nat \<Rightarrow> 32 word list list \<Rightarrow> byte list option" where
  "save_rows 0 w stride px = Some []"
| "save_rows (Suc y) w stride px =
     (case save_row 0 w y px [] of
        None \<Rightarrow> None
      | Some row_data \<Rightarrow>
          (case save_rows y w stride px of
             None \<Rightarrow> None
           | Some rest \<Rightarrow> Some (pad_row stride row_data @ rest)))"

text \<open>
  \<open>save\<close> returns the bytes it hands to the output stream. It has no check of
  \<open>fileWasRead\<close> and no \<open>throw\<close>. The start value of \<open>y\<close> is the \<open>uint32_t\<close> value
  \<open>height - 1\<close> read as \<open>int\<close>: it is negative when \<open>height\<close> is 0 or above \<open>2^31\<close>, and
  then no row is written.
\<close>

definition save :: "BMPImageEditor \<Rightarrow> outcome \<times> byte list" where
  "save ed =
     (let b = info_block ed;
          stride = unat (row_stride b);
          y0 = sint (height b - 1);
          head = bytes_of_file_header (file_header ed) @ bytes_of_info_block b
      in if 0 \<le> y0 \<and> 2 ^ 31 \<le> unat (width b) then (UndefinedBehaviour, head)
         else (case save_rows (nat (y0 + 1)) (unat (width b)) stride (pixels ed) of
                 None \<Rightarrow> (UndefinedBehaviour, head)
               | Some body \<Rightarrow> (Returned, head @ body)))"

section \<open>Notions used in the statements\<close>

text \<open>
  The row stride as the specification writes it, \<open>stride(w) = ((3w+3)/4)*4\<close> with integer
  division, on unbounded numbers. It is compared below with the two computations of the
  source, \<open>row_size\<close> of \<open>read\<close> and \<open>row_stride\<close> of \<open>save\<close>.
\<close>

definition spec_stride :: "nat \<Rightarrow> nat" where
  "spec_stride w = ((3 * w + 3) div 4) * 4"

text \<open>Concrete inputs: an info block and a file header of a 24-bit image, and an editor
  object on which nothing has been read yet: a value-initialised \<open>BMPImageEditor\<close>, with
  all fields of the two structs zero, no rows and \<open>fileWasRead\<close> false.\<close>

definition info_24bpp :: "32 word \<Rightarrow> 32 word \<Rightarrow> BMPFileInfoBlock" where
  "info_24bpp w h =
     \<lparr> size_of_info_block = 40, width = w, height = h, count_of_planes = 1,
       color_depth_in_bits = 24, type_of_compression = 0, size_of_image = 0,
       horizontal_resolution = 0, vertical_resolution = 0, count_of_colors = 0,
       count_of_important_colors = 0 \<rparr>"

definition header_bm :: BMPFileHeader where
  "header_bm = \<lparr> type_of_file = 0x4D42, size_of_file = 0, reserved_1 = 0, reserved_2 = 0,
                 offset_to_pixel_data = 54 \<rparr>"

definition unloaded_editor :: BMPImageEditor where
  "unloaded_editor =
     \<lparr> file_header = \<lparr> type_of_file = 0, size_of_file = 0, reserved_1 = 0, reserved_2 = 0,
                       offset_to_pixel_data = 0 \<rparr>,
       info_block = \<lparr> size_of_info_block = 0, width = 0, height = 0, count_of_planes = 0,
                      color_depth_in_bits = 0, type_of_compression = 0, size_of_image = 0,
                      horizontal_resolution = 0, vertical_resolution = 0, count_of_colors = 0,
                      count_of_important_colors = 0 \<rparr>,
       pixels = [], fileWasRead = False \<rparr>"

text \<open>The object after the two header reads of a file of at least 54 bytes.\<close>

definition headers_read :: "byte list \<Rightarrow> BMPImageEditor \<Rightarrow> BMPImageEditor" where
  "headers_read data ed =
     ed\<lparr> file_header := file_header_of_bytes (take 14 data),
         info_block := info_block_of_bytes (take 40 (drop 14 data)) \<rparr>"

text \<open>The 54 bytes that \<open>save\<close> writes for the two structs.\<close>

definition bmp_headers :: "BMPFileHeader \<Rightarrow> BMPFileInfoBlock \<Rightarrow> byte list" where
  "bmp_headers h b = bytes_of_file_header h @ bytes_of_info_block b"

text \<open>The two structs as they stand in the first 54 bytes of a file.\<close>

definition file_header_in :: "byte list \<Rightarrow> BMPFileHeader" where
  "file_header_in data = file_header_of_bytes (take 14 data)"

definition info_block_in :: "byte list \<Rightarrow> BMPFileInfoBlock" where
  "info_block_in data = info_block_of_bytes (take 40 (drop 14 data))"

text \<open>
  The byte of the file at offset \<open>p\<close>, and 0 where the file has ended: what a one-byte
  \<open>read\<close> into a zero-initialised \<open>uint8_t\<close> yields at \<open>p\<close>. \<open>pixel_at\<close> is the colour
  packed from three consecutive bytes, \<open>disk_row\<close> the \<open>w\<close> colours of a row that starts
  at \<open>p\<close>.
\<close>

definition byte_at :: "byte list \<Rightarrow> nat \<Rightarrow> byte" where
  "byte_at data p = (if p < length data then data ! p else 0)"

definition pixel_at :: "byte list \<Rightarrow> nat \<Rightarrow> 32 word" where
  "pixel_at data p = pack_color (byte_at data p) (byte_at data (p + 1)) (byte_at data (p + 2))"

definition disk_row :: "byte list \<Rightarrow> nat \<Rightarrow> nat \<Rightarrow> 32 word list" where
  "disk_row data p w = map (\<lambda>j. pixel_at data (p + 3 * j)) [0..<w]"

text \<open>The stream \<open>s\<close> over \<open>data\<close> behaves as a stream standing at offset \<open>p\<close>: it is
  there, or it has failed and \<open>p\<close> is past the end.\<close>

definition stream_at :: "byte list \<Rightarrow> ifstream \<Rightarrow> nat \<Rightarrow> bool" where
  "stream_at data s p \<longleftrightarrow> contents s = data \<and> (if failbit s then length data \<le> p else gpos s = p)"

text \<open>The grid after the disk rows \<open>y, y + 1, ..., h - 1\<close> have been stored, the stream
  standing at \<open>p\<close> before row \<open>y\<close>.\<close>

definition rows_stored ::
  "byte list \<Rightarrow> nat \<Rightarrow> nat \<Rightarrow> nat \<Rightarrow> nat \<Rightarrow> nat \<Rightarrow> 32 word list list \<Rightarrow> 32 word list list" where
  "rows_stored data p stride y h w px =
     map (\<lambda>i. if i < h - y
               then disk_row data (p + (h - 1 - i - y) * stride) w @ drop w (px ! i)
               else px ! i) [0..<h]"

text \<open>The bytes that \<open>save\<close> writes for one cell, and for one row of the grid at a given
  width and stride: the cells of the first \<open>w\<close> columns, then zeros up to the stride.\<close>

definition cell_bytes :: "32 word \<Rightarrow> byte list" where
  "cell_bytes p = [blue_of p, green_of p, red_of p]"

definition saved_row :: "nat \<Rightarrow> nat \<Rightarrow> 32 word list \<Rightarrow> byte list" where
  "saved_row w stride r =
     concat (map cell_bytes (take w r)) @ replicate (stride - 3 * w) 0"

text \<open>The grid has \<open>height\<close> rows, each with at least \<open>width\<close> cells: the invariant that
  \<open>drawCross\<close> and \<open>save\<close> rely on when they index \<open>pixels\<close>.\<close>

definition grid_fits :: "BMPImageEditor \<Rightarrow> bool" where
  "grid_fits ed \<longleftrightarrow>
     length (pixels ed) = unat (height (info_block ed))
     \<and> list_all (\<lambda>r. unat (width (info_block ed)) \<le> length r) (pixels ed)"

text \<open>The rows that \<open>pixels.resize\<close> keeps from an earlier image are wide enough for the
  new one. It holds on an object whose grid is empty.\<close>

definition old_rows_fit :: "BMPFileInfoBlock \<Rightarrow> BMPImageEditor \<Rightarrow> bool" where
  "old_rows_fit b ed \<longleftrightarrow>
     list_all (\<lambda>r. unat (width b) \<le> length r) (take (unat (height b)) (pixels ed))"

text \<open>
  A well-formed uncompressed 24-bit BMP stream: both header blocks are there, with the tag
  "BM", depth 24 and compression 0; the pixel data start after the headers and are all
  there; the padding bytes of every row are zero, as the format table of the specification
  has it. Width and height are not bounded.
\<close>

definition well_formed_bmp :: "byte list \<Rightarrow> bool" where
  "well_formed_bmp data \<longleftrightarrow>
     (let b = info_block_in data;
          off = unat (offset_to_pixel_data (file_header_in data));
          w = unat (width b);
          h = unat (height b);
          stride = spec_stride w
      in 54 \<le> length data
         \<and> type_of_file (file_header_in data) = 0x4D42
         \<and> color_depth_in_bits b = 24
         \<and> type_of_compression b = 0
         \<and> 54 \<le> off \<and> off + stride * h \<le> length data
         \<and> list_all (\<lambda>d. list_all (\<lambda>k. data ! (off + d * stride + k) = 0) [3 * w..<stride])
               [0..<h])"

text \<open>The object after reading a 1x1 image whose pixel bytes are 1, 2, 3.\<close>

definition loaded_1x1 :: BMPImageEditor where
  "loaded_1x1 = \<lparr> file_header = header_bm, info_block = info_24bpp 1 1, pixels = [[0x010203]],
                  fileWasRead = True \<rparr>"

text \<open>A 2x2 image: the disk row stored first (the bottom row) holds the bytes 1 to 6,
  the disk row stored last (the top row) the bytes 7 to 12; each row ends with two
  padding bytes. \<open>loaded_2x2\<close> is the object after reading it.\<close>

definition bmp_2x2 :: "byte list" where
  "bmp_2x2 = bmp_headers header_bm (info_24bpp 2 2)
               @ [1, 2, 3, 4, 5, 6, 0, 0, 7, 8, 9, 10, 11, 12, 0, 0]"

definition loaded_2x2 :: BMPImageEditor where
  "loaded_2x2 = \<lparr> file_header = header_bm, info_block = info_24bpp 2 2,
                   pixels = [[0x070809, 0x0A0B0C], [0x010203, 0x040506]], fileWasRead = True \<rparr>"


text \<open>A row of the grid after the two assignments of one round of the loop of
  \<open>drawCross\<close>, at width \<open>w\<close> and round \<open>i\<close>.\<close>

definition cross_row :: "nat \<Rightarrow> nat \<Rightarrow> 32 word \<Rightarrow> 32 word list \<Rightarrow> 32 word list" where
  "cross_row w i color r = r[i := color, w - i - 1 := color]"

text \<open>A 3x2 image with the bytes 1 to 9 in the disk row stored first and 10 to 18 in the
  one stored last, three padding bytes after each; and the object after reading it.\<close>

definition bmp_3x2 :: "byte list" where
  "bmp_3x2 = bmp_headers header_bm (info_24bpp 3 2)
               @ [1, 2, 3, 4, 5, 6, 7, 8, 9, 0, 0, 0, 10, 11, 12, 13, 14, 15, 16, 17, 18, 0, 0, 0]"

definition loaded_3x2 :: BMPImageEditor where
  "loaded_3x2 = \<lparr> file_header = header_bm, info_block = info_24bpp 3 2,
                   pixels = [[0x0A0B0C, 0x0D0E0F, 0x101112], [0x010203, 0x040506, 0x070809]],
                   fileWasRead = True \<rparr>"

text \<open>
  An image of one row of 178956970 black pixels: \<open>3 * 178956970 = 536870910\<close> pixel bytes
  and two padding bytes, 536870912 bytes after the headers. At this width the product
  \<open>width * 24\<close> is \<open>2^32 - 16\<close>, and adding 31 to it wraps around. \<open>wide_loaded\<close> is the
  object after reading the image.
\<close>

definition wide_bmp :: "byte list" where
  "wide_bmp = bmp_headers header_bm (info_24bpp 178956970 1) @ replicate 536870912 0"

definition wide_loaded :: BMPImageEditor where
  "wide_loaded = \<lparr> file_header = header_bm, info_block = info_24bpp 178956970 1,
                    pixels = [replicate 178956970 0], fileWasRead = True \<rparr>"

section \<open>Properties\<close>

subsection \<open>Bytes and words\<close>

lemma word_255_eq_mask: "(255::32 word) = mask 8"
  by (simp add: mask_eq_exp_minus_1)
lemma u16_low_byte: "ucast (ucast (a::8 word) OR push_bit 8 (ucast (b::8 word)) :: 16 word) = a"
  by (rule bit_word_eqI) (auto simp: bit_simps dest: bit_imp_le_length)
lemma u16_high_byte: "ucast (drop_bit 8 (ucast (a::8 word) OR push_bit 8 (ucast (b::8 word)) :: 16 word)) = b"
  by (rule bit_word_eqI) (auto simp: bit_simps dest: bit_imp_le_length)
lemma bytes_of_u16_of_bytes: "bytes_of_u16 (u16_of_bytes m) = [m ! 0, m ! 1]"
  by (simp only: bytes_of_u16_def u16_of_bytes_def u16_low_byte u16_high_byte)

lemma u32_byte_0: "ucast (ucast (a::8 word) OR push_bit 8 (ucast (b::8 word)) OR push_bit 16 (ucast (c::8 word)) OR push_bit 24 (ucast (d::8 word)) :: 32 word) = a"
  by (rule bit_word_eqI) (auto simp: bit_simps dest: bit_imp_le_length)
lemma u32_byte_1: "ucast (drop_bit 8 (ucast (a::8 word) OR push_bit 8 (ucast (b::8 word)) OR push_bit 16 (ucast (c::8 word)) OR push_bit 24 (ucast (d::8 word)) :: 32 word)) = b"
  by (rule bit_word_eqI) (auto simp: bit_simps dest: bit_imp_le_length)
lemma u32_byte_2: "ucast (drop_bit 16 (ucast (a::8 word) OR push_bit 8 (ucast (b::8 word)) OR push_bit 16 (ucast (c::8 word)) OR push_bit 24 (ucast (d::8 word)) :: 32 word)) = c"
  by (rule bit_word_eqI) (auto simp: bit_simps dest: bit_imp_le_length)
lemma u32_byte_3: "ucast (drop_bit 24 (ucast (a::8 word) OR push_bit 8 (ucast (b::8 word)) OR push_bit 16 (ucast (c::8 word)) OR push_bit 24 (ucast (d::8 word)) :: 32 word)) = d"
  by (rule bit_word_eqI) (auto simp: bit_simps dest: bit_imp_le_length)
lemma bytes_of_u32_of_bytes: "bytes_of_u32 (u32_of_bytes m) = [m ! 0, m ! 1, m ! 2, m ! 3]"
  by (simp only: bytes_of_u32_def u32_of_bytes_def u32_byte_0 u32_byte_1 u32_byte_2 u32_byte_3)

lemma pack_blue: "blue_of (pack_color b g r) = b"
  unfolding blue_of_def pack_color_def word_255_eq_mask by (rule bit_word_eqI) (auto simp: bit_simps dest: bit_imp_le_length)
lemma pack_green: "green_of (pack_color b g r) = g"
  unfolding green_of_def pack_color_def word_255_eq_mask by (rule bit_word_eqI) (auto simp: bit_simps dest: bit_imp_le_length)
lemma pack_red: "red_of (pack_color b g r) = r"
  unfolding red_of_def pack_color_def word_255_eq_mask by (rule bit_word_eqI) (auto simp: bit_simps dest: bit_imp_le_length)

lemma u16_of_bytes_of_u16: "u16_of_bytes (bytes_of_u16 v @ rest) = v"
  unfolding u16_of_bytes_def bytes_of_u16_def
  by (rule bit_word_eqI) (auto simp: bit_simps not_less dest: bit_imp_le_length)

lemma u32_of_bytes_of_u32: "u32_of_bytes (bytes_of_u32 v @ rest) = v"
  unfolding u32_of_bytes_def bytes_of_u32_def
  apply (rule bit_word_eqI)
  apply (auto simp: bit_simps not_less dest: bit_imp_le_length)
  subgoal for n by (cases "24 \<le> n") simp_all
  done

lemmas u16_of_bytes_of_u16_only = u16_of_bytes_of_u16[of _ "[]", simplified]
lemmas u32_of_bytes_of_u32_only = u32_of_bytes_of_u32[of _ "[]", simplified]
lemma length_bytes_of_u16: "length (bytes_of_u16 v) = 2"
  by (simp add: bytes_of_u16_def)
lemma length_bytes_of_u32: "length (bytes_of_u32 v) = 4"
  by (simp add: bytes_of_u32_def)

lemma file_header_of_bytes_of: "file_header_of_bytes (bytes_of_file_header h @ rest) = h"
  by (simp add: file_header_of_bytes_def bytes_of_file_header_def slice_def
        length_bytes_of_u16 length_bytes_of_u32 u16_of_bytes_of_u16 u32_of_bytes_of_u32 u16_of_bytes_of_u16_only u32_of_bytes_of_u32_only)

lemma info_block_of_bytes_of: "info_block_of_bytes (bytes_of_info_block b @ rest) = b"
  by (simp add: info_block_of_bytes_def bytes_of_info_block_def slice_def
        length_bytes_of_u16 length_bytes_of_u32 u16_of_bytes_of_u16 u32_of_bytes_of_u32 u16_of_bytes_of_u16_only u32_of_bytes_of_u32_only)

subsection \<open>The header reads\<close>

lemma length_bytes_of_file_header: "length (bytes_of_file_header h) = 14"
  by (simp add: bytes_of_file_header_def bytes_of_u16_def bytes_of_u32_def)

lemma length_bytes_of_info_block: "length (bytes_of_info_block b) = 40"
  by (simp add: bytes_of_info_block_def bytes_of_u16_def bytes_of_u32_def)

lemma ifstream_read_enough:
  assumes "\<not> failbit s" and "gpos s + n \<le> length (contents s)" and "length buf = n"
  shows "ifstream_read n buf s =
           (take n (drop (gpos s) (contents s)), s\<lparr> gpos := gpos s + n, failbit := False \<rparr>)"
proof -
  have "length (take n (drop (gpos s) (contents s))) = n" using assms(2) by simp
  then show ?thesis using assms(1,3) by (simp add: ifstream_read_def Let_def)
qed

lemma read_short: "length data < 54 \<Longrightarrow> fst (read (Some data) ed) = Threw ReadFailure"
  by (auto simp: read_def ifstream_read_def ifstream_open_def sizeof_BMPFileHeader_def
        sizeof_BMPFileInfoBlock_def Let_def min_def split: prod.splits)

lemma read_long:
  assumes "54 \<le> length data"
  shows "read (Some data) ed =
    (let ed2 = headers_read data ed; b = info_block ed2 in
     if type_of_file (file_header ed2) \<noteq> 0x4D42 then (Threw NotABmpFile, ed2)
     else if color_depth_in_bits b \<noteq> 24 then (Threw UnsupportedColorDepth, ed2)
     else
       let s3 = \<lparr> contents = data, gpos = unat (offset_to_pixel_data (file_header ed2)),
                   failbit = False \<rparr>;
           ed3 = ed2\<lparr> pixels := resize (unat (height b)) (unat (width b)) (pixels ed) \<rparr>
       in if int_counter_overflows b then (UndefinedBehaviour, ed3)
          else (case read_rows 0 (unat (height b)) (unat (width b)) (padding b) s3 (pixels ed3) of
                  None \<Rightarrow> (UndefinedBehaviour, ed3)
                | Some (s4, px) \<Rightarrow> (Returned, ed3\<lparr> pixels := px, fileWasRead := True \<rparr>)))"
proof -
  have 1: "ifstream_read 14 (bytes_of_file_header (file_header ed)) (ifstream_open data)
      = (take 14 data, \<lparr> contents = data, gpos = 14, failbit = False \<rparr>)"
    using assms
    by (subst ifstream_read_enough) (simp_all add: ifstream_open_def length_bytes_of_file_header)
  have 2: "ifstream_read 40 buf \<lparr> contents = data, gpos = 14, failbit = False \<rparr>
      = (take 40 (drop 14 data), \<lparr> contents = data, gpos = 54, failbit = False \<rparr>)"
    if "length buf = 40" for buf
    using assms that by (subst ifstream_read_enough) simp_all
  show ?thesis
    by (simp add: read_def sizeof_BMPFileHeader_def sizeof_BMPFileInfoBlock_def 1
          2[OF length_bytes_of_info_block] Let_def headers_read_def seekg_beg_def)
qed

lemma u16_magic: "u16_of_bytes m = 0x4D42 \<longleftrightarrow> m ! 0 = 0x42 \<and> m ! 1 = 0x4D"
proof
  assume "u16_of_bytes m = 0x4D42"
  then have "bytes_of_u16 (u16_of_bytes m) = bytes_of_u16 0x4D42" by simp
  then show "m ! 0 = 0x42 \<and> m ! 1 = 0x4D"
    unfolding bytes_of_u16_of_bytes by (simp add: bytes_of_u16_def)
next
  assume "m ! 0 = 0x42 \<and> m ! 1 = 0x4D"
  then show "u16_of_bytes m = 0x4D42" by (simp add: u16_of_bytes_def)
qed

lemma magic_of_file:
  "2 \<le> length data \<Longrightarrow>
   type_of_file (file_header_of_bytes (take 14 data)) = 0x4D42 \<longleftrightarrow> data ! 0 = 0x42 \<and> data ! 1 = 0x4D"
  by (simp add: file_header_of_bytes_def u16_magic slice_def)


subsection \<open>Word arithmetic of the strides\<close>

lemma not_3_eq_not_mask: "(NOT 3 :: 32 word) = NOT (mask 2)"
  by (simp add: mask_eq_exp_minus_1)

lemma Suc_Suc_diff_2: "2 \<le> n \<Longrightarrow> Suc (Suc (n - 2)) = n"
  by simp

lemma and_not_3_shift: "(x::32 word) AND NOT 3 = push_bit 2 (drop_bit 2 x)"
  unfolding not_3_eq_not_mask
  by (rule bit_word_eqI) (auto simp: bit_simps Suc_Suc_diff_2 not_less)

lemma unat_and_not_3: "unat ((x::32 word) AND NOT 3) = (unat x div 4) * 4"
proof -
  have "unat x < 2 ^ 32" using unsigned_less[of x] by simp
  then have "unat x div 4 * 4 < 2 ^ 32" by simp
  then show ?thesis
    unfolding and_not_3_shift
    by (simp add: push_bit_eq_mult unat_word_ariths unat_drop_bit_eq drop_bit_eq_div)
qed

lemma bytes_per_pixel_24: "color_depth_in_bits b = 24 \<Longrightarrow> bytes_per_pixel b = 3"
  by (simp add: bytes_per_pixel_def)

lemma unat_row_size:
  assumes "color_depth_in_bits b = 24" and "3 * unat (width b) + 3 < 2 ^ 32"
  shows "unat (row_size b) = spec_stride (unat (width b))"
proof -
  have "unat (width b * 3 + 3) = 3 * unat (width b) + 3"
    using assms(2) by (simp add: unat_word_ariths)
  then show ?thesis
    unfolding row_size_def bytes_per_pixel_24[OF assms(1)] unat_and_not_3 spec_stride_def
    by simp
qed

lemma unat_row_stride:
  assumes "color_depth_in_bits b = 24" and "24 * unat (width b) + 31 < 2 ^ 32"
  shows "unat (row_stride b) = spec_stride (unat (width b))"
proof -
  have 1: "unat (width b * 24 + 31) = 24 * unat (width b) + 31"
    using assms(2) by (simp add: unat_word_ariths)
  have 2: "unat ((width b * 24 + 31) div 32) = (24 * unat (width b) + 31) div 32"
    by (simp add: unat_div 1)
  have 3: "(24 * unat (width b) + 31) div 32 * 4 < 2 ^ 32" using assms(2) by simp
  have 4: "unat ((width b * 24 + 31) div 32 * 4) = (24 * unat (width b) + 31) div 32 * 4"
    using 3 by (simp add: unat_word_ariths(2) 2)
  have 5: "(24 * unat (width b) + 31) div 32 = (3 * unat (width b) + 3) div 4" by presburger
  show ?thesis unfolding row_stride_def assms(1) spec_stride_def using 4 5 by simp
qed

text \<open>
  C5 (as amended). For a 24-bit image whose width \<open>w\<close> satisfies \<open>24 w + 31 < 2^32\<close>, the
  row size computed by \<open>read\<close> and the row stride recomputed by \<open>save\<close> are both
  \<open>((3w+3)/4)*4\<close>; for \<open>w = 1, 2, 3, 4, 5\<close> that is 4, 8, 12, 12, 16.
\<close>

theorem stride_agrees:
  assumes "color_depth_in_bits b = 24" and "24 * unat (width b) + 31 < 2 ^ 32"
  shows "unat (row_size b) = spec_stride (unat (width b))
       \<and> unat (row_stride b) = spec_stride (unat (width b))
       \<and> map spec_stride [1, 2, 3, 4, 5] = [4, 8, 12, 12, 16]"
proof -
  have "3 * unat (width b) + 3 < 2 ^ 32" using assms(2) by simp
  then show ?thesis
    using unat_row_size[OF assms(1)] unat_row_stride[OF assms] by (simp add: spec_stride_def)
qed

theorem stride_agrees_witness:
  "color_depth_in_bits (info_24bpp 5 1) = 24
   \<and> 24 * unat (width (info_24bpp 5 1)) + 31 < (2::nat) ^ 32
   \<and> unat (row_size (info_24bpp 5 1)) = 16 \<and> unat (row_stride (info_24bpp 5 1)) = 16"
  using stride_agrees[of "info_24bpp 5 1"] by (simp add: info_24bpp_def spec_stride_def)

text \<open>
  C5 as stated fails: at width 2 both computations give 8, not the 4 of the list
  "4,4,4,12,8", and the formula itself gives 8; and at width 178956970 the product
  \<open>width * 24\<close> of \<open>save\<close> wraps around, so that \<open>row_stride\<close> is 0 there.
\<close>

theorem stride_values_counterexample:
  "unat (row_size (info_24bpp 2 1)) \<noteq> 4 \<and> unat (row_stride (info_24bpp 2 1)) \<noteq> 4
   \<and> spec_stride 2 \<noteq> 4
   \<and> unat (row_stride (info_24bpp 178956970 1)) \<noteq> spec_stride 178956970"
  by (simp add: row_size_def bytes_per_pixel_def row_stride_def info_24bpp_def spec_stride_def)

subsection \<open>The pixel loops of \<open>read\<close>\<close>

lemma read_u8_at:
  assumes "stream_at data s p"
  shows "fst (read_u8 s) = byte_at data p \<and> stream_at data (snd (read_u8 s)) (p + 1)"
proof (cases "failbit s")
  case True
  with assms show ?thesis
    by (simp add: stream_at_def read_u8_def ifstream_read_def byte_at_def)
next
  case False
  with assms have c: "contents s = data" and g: "gpos s = p" by (simp_all add: stream_at_def)
  show ?thesis
  proof (cases "p < length data")
    case True
    then have "take 1 (drop p data) = [data ! p]"
      by (simp add: Cons_nth_drop_Suc[symmetric])
    with False c g True show ?thesis
      by (simp add: stream_at_def read_u8_def ifstream_read_def byte_at_def Let_def)
  next
    case F: False
    with False c g show ?thesis
      by (simp add: stream_at_def read_u8_def ifstream_read_def byte_at_def Let_def)
  qed
qed

lemma seekg_cur_at: "stream_at data s p \<Longrightarrow> stream_at data (seekg_cur k s) (p + k)"
  by (auto simp: stream_at_def seekg_cur_def)

lemma read_pixel_at:
  assumes "stream_at data s p"
  shows "(case read_u8 s of (blue, s1) \<Rightarrow> case read_u8 s1 of (green, s2) \<Rightarrow>
           case read_u8 s2 of (red, s3) \<Rightarrow> f blue green red s3)
         = f (byte_at data p) (byte_at data (p + 1)) (byte_at data (p + 2))
             (snd (read_u8 (snd (read_u8 (snd (read_u8 s))))))"
    and "stream_at data (snd (read_u8 (snd (read_u8 (snd (read_u8 s)))))) (p + 3)"
proof -
  note a = read_u8_at[OF assms]
  note b = read_u8_at[OF a[THEN conjunct2]]
  note c = read_u8_at[OF b[THEN conjunct2]]
  show "(case read_u8 s of (blue, s1) \<Rightarrow> case read_u8 s1 of (green, s2) \<Rightarrow>
           case read_u8 s2 of (red, s3) \<Rightarrow> f blue green red s3)
         = f (byte_at data p) (byte_at data (p + 1)) (byte_at data (p + 2))
             (snd (read_u8 (snd (read_u8 (snd (read_u8 s))))))"
    using a b c by (simp add: split_beta add.assoc)
  show "stream_at data (snd (read_u8 (snd (read_u8 (snd (read_u8 s)))))) (p + 3)"
    using c by (simp add: eval_nat_numeral)
qed


lemma read_row_step:
  assumes "stream_at data s p" and "x < w" and "ri < length px" and "x < length (px ! ri)"
  shows "read_row x w ri s px =
           read_row (x + 1) w ri (snd (read_u8 (snd (read_u8 (snd (read_u8 s))))))
             (px[ri := (px ! ri)[x := pixel_at data p]])"
  by (subst read_row.simps) (simp add: read_pixel_at(1)[OF assms(1)] assms pixel_at_def)

lemma read_row_closed:
  assumes "stream_at data s p" and "x \<le> w" and "ri < length px" and "w \<le> length (px ! ri)"
  shows "\<exists>s'. read_row x w ri s px =
            Some (s', px[ri := take x (px ! ri)
                         @ map (\<lambda>j. pixel_at data (p + 3 * (j - x))) [x..<w]
                         @ drop w (px ! ri)])
          \<and> stream_at data s' (p + 3 * (w - x))"
  using assms
proof (induction n \<equiv> "w - x" arbitrary: x s px p)
  case 0
  then have "x = w" by simp
  then show ?case using 0 by (subst read_row.simps) simp
next
  case (Suc n)
  let ?row = "px ! ri"
  let ?c = "pixel_at data p"
  let ?s3 = "snd (read_u8 (snd (read_u8 (snd (read_u8 s)))))"
  let ?px1 = "px[ri := ?row[x := ?c]]"
  from Suc.hyps(2) have xw: "x < w" and n: "n = w - (x + 1)" by simp_all
  from xw Suc.prems(4) have xl: "x < length ?row" by simp
  have step: "read_row x w ri s px = read_row (x + 1) w ri ?s3 ?px1"
    by (rule read_row_step[OF Suc.prems(1) xw Suc.prems(3) xl])
  have st3: "stream_at data ?s3 (p + 3)" by (rule read_pixel_at(2)[OF Suc.prems(1)])
  have row1: "?px1 ! ri = ?row[x := ?c]" using Suc.prems(3) by simp
  from Suc.hyps(1)[OF n st3, of ?px1] xw Suc.prems(3,4)
  obtain s' where r: "read_row (x + 1) w ri ?s3 ?px1 =
       Some (s', ?px1[ri := take (x + 1) (?px1 ! ri)
                @ map (\<lambda>j. pixel_at data (p + 3 + 3 * (j - (x + 1)))) [x + 1..<w]
                @ drop w (?px1 ! ri)])"
    and s': "stream_at data s' (p + 3 + 3 * (w - (x + 1)))"
    by (auto simp: row1)
  have t: "take (x + 1) (?row[x := ?c]) = take x ?row @ [?c]"
    using xl by (simp add: take_Suc_conv_app_nth)
  have d: "drop w (?row[x := ?c]) = drop w ?row" using xw by simp
  have m: "map (\<lambda>j. pixel_at data (p + 3 * (j - x))) [x..<w]
     = ?c # map (\<lambda>j. pixel_at data (p + 3 + 3 * (j - (x + 1)))) [x + 1..<w]"
  proof -
    have "[x..<w] = x # [x + 1..<w]" using xw by (simp add: upt_conv_Cons)
    moreover have "map (\<lambda>j. pixel_at data (p + 3 * (j - x))) [x + 1..<w]
       = map (\<lambda>j. pixel_at data (p + 3 + 3 * (j - (x + 1)))) [x + 1..<w]"
    proof (rule map_cong[OF refl])
      fix j assume "j \<in> set [x + 1..<w]"
      then have "x + 1 \<le> j" by simp
      then have "p + 3 * (j - x) = p + 3 + 3 * (j - (x + 1))" by simp
      then show "pixel_at data (p + 3 * (j - x)) = pixel_at data (p + 3 + 3 * (j - (x + 1)))"
        by (simp only:)
    qed
    ultimately show ?thesis by simp
  qed
  have pos: "p + 3 + 3 * (w - (x + 1)) = p + 3 * (w - x)" using xw by simp
  have s'': "stream_at data s' (p + 3 * (w - x))" using s' by (simp only: pos)
  show ?case
    unfolding step r row1 t d m using s'' by simp
qed

lemma read_row_Some_bounds:
  assumes "read_row x w ri s px = Some r" and "x < w"
  shows "ri < length px \<and> w \<le> length (px ! ri)"
  using assms
proof (induction n \<equiv> "w - x" arbitrary: x s px)
  case 0
  then show ?case by simp
next
  case (Suc n)
  from Suc.prems have b: "ri < length px \<and> x < length (px ! ri)"
    by (subst (asm) read_row.simps) (simp split: prod.splits if_splits)
  obtain s3 c where rec: "read_row (x + 1) w ri s3 (px[ri := (px ! ri)[x := c]]) = Some r"
    using Suc.prems b by (subst (asm) read_row.simps) (auto split: prod.splits)
  show ?case
  proof (cases "x + 1 < w")
    case True
    have "n = w - (x + 1)" using Suc.hyps(2) by simp
    from Suc.hyps(1)[OF this rec True] b show ?thesis by simp
  next
    case False
    with Suc.prems(2) b show ?thesis by simp
  qed
qed


lemma read_row_from_0:
  assumes "stream_at data s p" and "ri < length px" and "w \<le> length (px ! ri)"
  shows "\<exists>s'. read_row 0 w ri s px = Some (s', px[ri := disk_row data p w @ drop w (px ! ri)])
          \<and> stream_at data s' (p + 3 * w)"
  using read_row_closed[OF assms(1) _ assms(2,3), of 0] by (simp add: disk_row_def)

lemma read_row_empty: "read_row 0 0 ri s px = Some (s, px)"
  by (subst read_row.simps) simp

lemma read_rows_closed:
  assumes "stream_at data s p" and "y \<le> h" and "length px = h"
    and "\<forall>i<h. w \<le> length (px ! i)" and "stride = 3 * w + nat pad"
  shows "\<exists>s'. read_rows y h w pad s px = Some (s', rows_stored data p stride y h w px)"
  using assms(1-4)
proof (induction n \<equiv> "h - y" arbitrary: y s px p)
  case 0
  then have "y = h" by simp
  moreover have "map ((!) px) [0..<length px] = px" by (rule map_nth)
  ultimately show ?case using 0
    by (subst read_rows.simps) (simp add: rows_stored_def)
next
  case (Suc n)
  let ?ri = "h - y - 1"
  let ?px1 = "px[?ri := disk_row data p w @ drop w (px ! ?ri)]"
  from Suc.hyps(2) have yh: "y < h" and n: "n = h - (y + 1)" by simp_all
  have ri: "?ri < length px" using yh Suc.prems(3) by simp
  have wl: "w \<le> length (px ! ?ri)" using Suc.prems(4) yh by simp
  from read_row_from_0[OF Suc.prems(1) ri wl]
  obtain s1 where r1: "read_row 0 w ?ri s px = Some (s1, ?px1)"
    and st1: "stream_at data s1 (p + 3 * w)" by blast
  let ?s2 = "if pad > 0 then seekg_cur (nat pad) s1 else s1"
  have st2: "stream_at data ?s2 (p + stride)"
    using seekg_cur_at[OF st1, of "nat pad"] st1 by (simp add: add.assoc assms(5))
  have l1: "length ?px1 = h" using Suc.prems(3) by simp
  have w1: "\<forall>i<h. w \<le> length (?px1 ! i)"
    using Suc.prems(3,4) by (auto simp: nth_list_update disk_row_def)
  from Suc.hyps(1)[OF n st2 _ l1 w1] yh
  obtain s' where r2: "read_rows (y + 1) h w pad ?s2 ?px1 =
      Some (s', rows_stored data (p + stride) stride (y + 1) h w ?px1)"
    by auto
  have step: "read_rows y h w pad s px = read_rows (y + 1) h w pad ?s2 ?px1"
    using r1 by (subst read_rows.simps) (simp add: yh)
  have eq: "rows_stored data (p + stride) stride (y + 1) h w ?px1
      = rows_stored data p stride y h w px"
    unfolding rows_stored_def
  proof (rule map_cong[OF refl])
    fix i assume "i \<in> set [0..<h]"
    then have ih: "i < h" by simp
    consider "i < ?ri" | "i = ?ri" | "?ri < i" by linarith
    then show "(if i < h - (y + 1)
           then disk_row data (p + stride + (h - 1 - i - (y + 1)) * stride) w @ drop w (?px1 ! i)
           else ?px1 ! i)
        = (if i < h - y then disk_row data (p + (h - 1 - i - y) * stride) w @ drop w (px ! i)
           else px ! i)"
    proof cases
      case 1
      then have a1: "i < h - (y + 1)" and a2: "i < h - y" by simp_all
      have ne: "?px1 ! i = px ! i" using 1 by simp
      have "h - 1 - i - y = Suc (h - 1 - i - (y + 1))" using 1 by simp
      then have e: "p + stride + (h - 1 - i - (y + 1)) * stride = p + (h - 1 - i - y) * stride"
        by (simp only: mult_Suc add.assoc)
      show ?thesis by (simp only: a1 a2 if_True ne e)
    next
      case 2
      then have a1: "\<not> i < h - (y + 1)" and a2: "i < h - y" using yh by simp_all
      have z: "h - 1 - i - y = 0" using 2 by simp
      have v: "?px1 ! i = disk_row data p w @ drop w (px ! i)" using 2 ri by simp
      show ?thesis by (simp only: a1 a2 if_True if_False z v mult_0 add_0_right)
    next
      case 3
      then have a1: "\<not> i < h - (y + 1)" and a2: "\<not> i < h - y" by simp_all
      have ne: "?px1 ! i = px ! i" using 3 by simp
      show ?thesis by (simp only: a1 a2 if_False ne)
    qed
  qed
  show ?case unfolding step r2 eq by simp
qed

lemma headers_read_in:
  "headers_read data ed = ed\<lparr> file_header := file_header_in data, info_block := info_block_in data \<rparr>"
  by (simp add: headers_read_def file_header_in_def info_block_in_def)

lemma stream_at_exists: "\<exists>p. stream_at (contents s) s p"
  by (cases "failbit s") (auto simp: stream_at_def)

lemma read_row_0_Some:
  assumes "read_row 0 w ri s px = Some (s1, px1)" and "0 < w"
  shows "ri < length px \<and> w \<le> length (px ! ri) \<and> length px1 = length px
         \<and> (\<forall>i. length (px1 ! i) = length (px ! i))"
proof -
  from read_row_Some_bounds[OF assms] have b: "ri < length px" "w \<le> length (px ! ri)"
    by simp_all
  obtain p where st: "stream_at (contents s) s p" using stream_at_exists by blast
  from read_row_from_0[OF st b] assms(1)
  have "px1 = px[ri := disk_row (contents s) p w @ drop w (px ! ri)]" by auto
  then show ?thesis using b by (auto simp: nth_list_update disk_row_def)
qed

lemma read_rows_Some_bounds:
  assumes "read_rows y h w pad s px = Some r" and "length px = h" and "0 < w"
  shows "\<forall>i < h - y. w \<le> length (px ! i)"
  using assms(1,2)
proof (induction n \<equiv> "h - y" arbitrary: y s px)
  case 0
  then show ?case by simp
next
  case (Suc n)
  from Suc.hyps(2) have yh: "y < h" and n: "n = h - (y + 1)" by simp_all
  from Suc.prems(1) yh obtain s1 px1 where
    r1: "read_row 0 w (h - y - 1) s px = Some (s1, px1)" and
    r2: "read_rows (y + 1) h w pad (if pad > 0 then seekg_cur (nat pad) s1 else s1) px1 = Some r"
    by (subst (asm) read_rows.simps) (auto split: option.splits)
  note b = read_row_0_Some[OF r1 assms(3)]
  have l1: "length px1 = h" using b Suc.prems(2) by simp
  from Suc.hyps(1)[OF n r2 l1] have ih: "\<forall>i < h - (y + 1). w \<le> length (px ! i)"
    using b by simp
  show ?case
  proof (intro allI impI)
    fix i assume "i < h - y"
    then consider "i < h - (y + 1)" | "i = h - y - 1" by linarith
    then show "w \<le> length (px ! i)" using ih b by cases simp_all
  qed
qed

lemma three_eq_mask: "(3 :: 32 word) = mask 2"
  by (simp add: mask_eq_exp_minus_1)

lemma unat_and_3: "unat ((y::32 word) AND 3) = unat y mod 4"
  unfolding three_eq_mask by (simp add: take_bit_eq_mask[symmetric] take_bit_eq_mod unat_mod)

lemma and_not_3_minus: "((y::32 word) AND NOT 3) = y - (y AND 3)"
proof -
  have "unat y < 2 ^ 32" using unsigned_less[of y] by simp
  then have "unat ((y AND NOT 3) + (y AND 3)) = unat y"
    unfolding unat_word_ariths unat_and_not_3 unat_and_3 by simp
  then have "(y AND NOT 3) + (y AND 3) = y"
    by (simp only: word_unat_eq_iff)
  then show ?thesis by (simp add: algebra_simps)
qed

lemma unat_padding_word: "unat ((((m::32 word) + 3) AND NOT 3) - m) = 3 - (unat m + 3) mod 4"
proof -
  have le: "unat ((m + 3) AND 3) \<le> 3" unfolding unat_and_3 by simp
  have e: "((m + 3) AND NOT 3) - m = 3 - ((m + 3) AND 3)"
    unfolding and_not_3_minus by simp
  have u: "unat ((m + 3) AND 3) = (unat m + 3) mod 4"
    unfolding unat_and_3 by (simp add: unat_word_ariths mod_mod_cancel)
  have "((m + 3) AND 3) \<le> 3" using le by (simp add: word_le_nat_alt)
  then have "unat (3 - ((m + 3) AND 3)) = 3 - unat ((m + 3) AND 3)"
    by (simp add: unat_sub)
  then show ?thesis unfolding e u by simp
qed

lemma sint_small: "unat (x::32 word) < 2 ^ 31 \<Longrightarrow> sint x = int (unat x)"
proof -
  assume "unat x < 2 ^ 31"
  then have "int (unat x) < int (2 ^ 31)" by (simp only: of_nat_less_iff)
  then have "uint x < 2 ^ 31" by simp
  then have "signed_take_bit 31 (uint x) = uint x"
    by (intro signed_take_bit_int_eq_self) (simp_all add: order_trans[of _ 0])
  then show ?thesis by (simp add: sint_uint)
qed

lemma nat_padding_24:
  assumes "color_depth_in_bits b = 24"
  shows "nat (padding b) = 3 - (3 * unat (width b) + 3) mod 4"
proof -
  let ?m = "width b * 3"
  have u: "unat ((?m + 3 AND NOT 3) - ?m) = 3 - (unat ?m + 3) mod 4" by (rule unat_padding_word)
  then have "unat ((?m + 3 AND NOT 3) - ?m) < 2 ^ 31" by simp
  from sint_small[OF this] have "padding b = int (3 - (unat ?m + 3) mod 4)"
    unfolding padding_def row_size_def bytes_per_pixel_24[OF assms] u .
  moreover have "(unat ?m + 3) mod 4 = (3 * unat (width b) + 3) mod 4"
  proof -
    have "unat ?m = (3 * unat (width b)) mod 2 ^ 32" by (simp add: unat_word_ariths mult.commute)
    then have "unat ?m mod 4 = (3 * unat (width b)) mod 4" by (simp add: mod_mod_cancel)
    then show ?thesis by (metis mod_add_left_eq)
  qed
  ultimately show ?thesis by simp
qed

lemma stride_of_padding:
  assumes "color_depth_in_bits b = 24"
  shows "3 * unat (width b) + nat (padding b) = spec_stride (unat (width b))"
  unfolding nat_padding_24[OF assms] spec_stride_def by presburger

lemma length_resize: "length (resize h w px) = h"
  by (simp add: resize_def)

lemma stream_at_seek: "stream_at data \<lparr> contents = data, gpos = p, failbit = False \<rparr> p"
  by (simp add: stream_at_def)

lemma read_Returned:
  assumes "read (Some data) ed = (Returned, ed')"
  defines "b \<equiv> info_block_in data"
  shows "54 \<le> length data"
    and "type_of_file (file_header_in data) = 0x4D42"
    and "color_depth_in_bits b = 24"
    and "\<not> int_counter_overflows b"
    and "\<exists>s4 px. read_rows 0 (unat (height b)) (unat (width b)) (padding b)
               \<lparr> contents = data, gpos = unat (offset_to_pixel_data (file_header_in data)),
                 failbit = False \<rparr>
               (resize (unat (height b)) (unat (width b)) (pixels ed)) = Some (s4, px)
          \<and> ed' = ed\<lparr> file_header := file_header_in data, info_block := b,
                       pixels := px, fileWasRead := True \<rparr>"
proof -
  show l: "54 \<le> length data"
  proof (rule ccontr)
    assume "\<not> 54 \<le> length data"
    then have "fst (read (Some data) ed) = Threw ReadFailure" by (simp add: read_short)
    with assms(1) show False by simp
  qed
  note r = assms(1)[unfolded read_long[OF l] headers_read_in Let_def]
  from r show "type_of_file (file_header_in data) = 0x4D42"
    by (simp split: if_splits)
  from r show "color_depth_in_bits b = 24"
    by (simp add: b_def split: if_splits)
  from r show "\<not> int_counter_overflows b"
    by (simp add: b_def split: if_splits)
  from r show "\<exists>s4 px. read_rows 0 (unat (height b)) (unat (width b)) (padding b)
               \<lparr> contents = data, gpos = unat (offset_to_pixel_data (file_header_in data)),
                 failbit = False \<rparr>
               (resize (unat (height b)) (unat (width b)) (pixels ed)) = Some (s4, px)
          \<and> ed' = ed\<lparr> file_header := file_header_in data, info_block := b,
                       pixels := px, fileWasRead := True \<rparr>"
    by (auto simp: b_def split: if_splits option.splits)
qed

lemma read_Returned_grid:
  assumes "read (Some data) ed = (Returned, ed')"
  defines "h \<equiv> unat (height (info_block_in data))"
    and "w \<equiv> unat (width (info_block_in data))"
  shows "file_header ed' = file_header_in data"
    and "info_block ed' = info_block_in data"
    and "fileWasRead ed'"
    and "\<forall>i<h. w \<le> length (resize h w (pixels ed) ! i)"
    and "pixels ed' = rows_stored data (unat (offset_to_pixel_data (file_header_in data)))
                        (spec_stride w) 0 h w (resize h w (pixels ed))"
proof -
  let ?b = "info_block_in data"
  let ?s3 = "\<lparr> contents = data, gpos = unat (offset_to_pixel_data (file_header_in data)),
                 failbit = False \<rparr>"
  let ?px0 = "resize h w (pixels ed)"
  from read_Returned(5)[OF assms(1)] obtain s4 px where
    rr: "read_rows 0 h w (padding ?b) ?s3 ?px0 = Some (s4, px)" and
    ed': "ed' = ed\<lparr> file_header := file_header_in data, info_block := ?b,
                       pixels := px, fileWasRead := True \<rparr>"
    unfolding h_def w_def by blast
  from ed' show "file_header ed' = file_header_in data" "info_block ed' = info_block_in data"
    "fileWasRead ed'" by simp_all
  show bounds: "\<forall>i<h. w \<le> length (?px0 ! i)"
  proof (cases "0 < w")
    case True
    from read_rows_Some_bounds[OF rr length_resize True] show ?thesis by simp
  next
    case False
    then show ?thesis by simp
  qed
  have st: "spec_stride w = 3 * w + nat (padding ?b)"
    unfolding w_def using stride_of_padding[OF read_Returned(3)[OF assms(1)]] by simp
  from read_rows_closed[OF stream_at_seek _ length_resize bounds st, of 0 data]
  have "\<exists>s'. read_rows 0 h w (padding ?b) ?s3 ?px0 = Some (s', rows_stored data
      (unat (offset_to_pixel_data (file_header_in data))) (spec_stride w) 0 h w ?px0)"
    by simp
  with rr have "px = rows_stored data (unat (offset_to_pixel_data (file_header_in data)))
      (spec_stride w) 0 h w ?px0" by auto
  with ed' show "pixels ed' = rows_stored data (unat (offset_to_pixel_data (file_header_in data)))
                        (spec_stride w) 0 h w (resize h w (pixels ed))" by simp
qed

lemma rows_stored_nth:
  assumes "d < h" and "x < w"
  shows "rows_stored data p stride 0 h w px ! (h - 1 - d) ! x = pixel_at data (p + d * stride + 3 * x)"
proof -
  have i: "h - 1 - d < h" using assms(1) by simp
  have e: "h - Suc (h - Suc d) = d" using assms(1) by simp
  have "rows_stored data p stride 0 h w px ! (h - 1 - d)
      = disk_row data (p + d * stride) w @ drop w (px ! (h - 1 - d))"
    unfolding rows_stored_def using i by (simp add: e)
  then show ?thesis using assms(2) by (simp add: disk_row_def nth_append add.assoc)
qed


subsection \<open>The loops of \<open>save\<close>, and \<open>read\<close> followed by \<open>save\<close>\<close>

lemma save_row_closed:
  assumes "x \<le> w" and "y < length px" and "w \<le> length (px ! y)"
  shows "save_row x w y px rd = Some (rd @ concat (map (\<lambda>j. cell_bytes (px ! y ! j)) [x..<w]))"
  using assms(1)
proof (induction n \<equiv> "w - x" arbitrary: x rd)
  case 0
  then have "x = w" by simp
  then show ?case by (subst save_row.simps) simp
next
  case (Suc n)
  from Suc.hyps(2) have xw: "x < w" and n: "n = w - (x + 1)" by simp_all
  have u: "[x..<w] = x # [x + 1..<w]" using xw by (simp add: upt_conv_Cons)
  have "save_row x w y px rd = save_row (x + 1) w y px
          (rd @ [blue_of (px ! y ! x), green_of (px ! y ! x), red_of (px ! y ! x)])"
    using xw assms(2,3) by (subst save_row.simps) simp
  also have "\<dots> = Some ((rd @ [blue_of (px ! y ! x), green_of (px ! y ! x), red_of (px ! y ! x)])
                 @ concat (map (\<lambda>j. cell_bytes (px ! y ! j)) [x + 1..<w]))"
    using Suc.hyps(1)[OF n] xw by simp
  finally show ?case unfolding u by (simp add: cell_bytes_def)
qed

lemma save_row_empty: "save_row 0 0 y px [] = Some []"
  by (subst save_row.simps) simp

lemma map_nth_take: "w \<le> length r \<Longrightarrow> map (\<lambda>j. f (r ! j)) [0..<w] = map f (take w r)"
  by (rule nth_equalityI) simp_all

lemma save_row_from_0:
  assumes "y < length px" and "w \<le> length (px ! y)"
  shows "save_row 0 w y px [] = Some (concat (map cell_bytes (take w (px ! y))))"
  using save_row_closed[OF _ assms, of 0 "[]"] map_nth_take[OF assms(2), of cell_bytes]
  by simp

lemma pad_row_closed: "pad_row stride rd = rd @ replicate (stride - length rd) 0"
proof (induction n \<equiv> "stride - length rd" arbitrary: rd)
  case 0
  then show ?case by (subst pad_row.simps) simp
next
  case (Suc n)
  then have l: "length rd < stride" and n: "n = stride - length (rd @ [0])" by simp_all
  have "stride - length rd = Suc (stride - length (rd @ [0]))" using l by simp
  then have "replicate (stride - length rd) (0::byte)
      = 0 # replicate (stride - length (rd @ [0])) 0" by (simp only: replicate_Suc)
  then show ?case using Suc.hyps(1)[OF n] l by (subst pad_row.simps) simp
qed

lemma length_concat_cells: "length (concat (map cell_bytes rs)) = 3 * length rs"
  by (induction rs) (simp_all add: cell_bytes_def)

lemma save_rows_closed:
  assumes "n \<le> length px" and "\<forall>i<n. w \<le> length (px ! i)"
  shows "save_rows n w stride px = Some (concat (map (\<lambda>y. saved_row w stride (px ! y)) (rev [0..<n])))"
  using assms
proof (induction n)
  case 0
  then show ?case by simp
next
  case (Suc n)
  have y: "n < length px" and wl: "w \<le> length (px ! n)" using Suc.prems by simp_all
  have ih: "save_rows n w stride px =
      Some (concat (map (\<lambda>y. saved_row w stride (px ! y)) (rev [0..<n])))"
    using Suc by simp
  have p: "pad_row stride (concat (map cell_bytes (take w (px ! n)))) = saved_row w stride (px ! n)"
    using wl by (simp add: pad_row_closed saved_row_def length_concat_cells)
  show ?case by (simp add: save_row_from_0[OF y wl] ih p)
qed

lemma sint_height_minus_1:
  assumes "unat (h::32 word) < 2 ^ 31"
  shows "sint (h - 1) = int (unat h) - 1"
proof (cases "h = 0")
  case True
  then show ?thesis by simp
next
  case False
  then have u: "unat (h - 1) = unat h - 1" by (rule unat_minus_one)
  then have "unat (h - 1) < 2 ^ 31" using assms by simp
  from sint_small[OF this] u False show ?thesis
    by (simp add: unat_gt_0 of_nat_diff Suc_leI)
qed

lemma length_concat_const:
  "\<forall>x\<in>set xs. length (f x) = k \<Longrightarrow> length (concat (map f xs)) = k * length xs"
  by (induction xs) simp_all

lemma spec_stride_ge: "3 * w \<le> spec_stride w"
  unfolding spec_stride_def by presburger

lemma length_saved_row:
  "w \<le> length r \<Longrightarrow> length (saved_row w (spec_stride w) r) = spec_stride w"
  using spec_stride_ge[of w] by (simp add: saved_row_def length_concat_cells)

lemma rev_rows: "map (\<lambda>y. f (px ! y)) (rev [0..<length px]) = map f (rev px)"
proof -
  have "map (\<lambda>y. f (px ! y)) (rev [0..<length px]) = rev (map f (map ((!) px) [0..<length px]))"
    by (simp add: rev_map)
  then show ?thesis by (simp only: map_nth rev_map)
qed


lemma save_closed:
  assumes "grid_fits ed" and "color_depth_in_bits (info_block ed) = 24"
    and "unat (height (info_block ed)) < 2 ^ 31"
    and "24 * unat (width (info_block ed)) + 31 < 2 ^ 32"
    and "w = unat (width (info_block ed))"
  shows "save ed = (Returned, bytes_of_file_header (file_header ed)
                      @ bytes_of_info_block (info_block ed)
                      @ concat (map (saved_row w (spec_stride w)) (rev (pixels ed))))
       \<and> length (concat (map (saved_row w (spec_stride w)) (rev (pixels ed))))
           = spec_stride w * unat (height (info_block ed))"
proof -
  let ?b = "info_block ed"
  let ?h = "unat (height ?b)"
  have len: "length (pixels ed) = ?h" and fits: "\<forall>r\<in>set (pixels ed). w \<le> length r"
    using assms(1,5) by (simp_all add: grid_fits_def list_all_iff)
  have wb: "\<not> 2 ^ 31 \<le> unat (width ?b)" using assms(4) by simp
  have n: "nat (sint (height ?b - 1) + 1) = ?h"
    by (simp add: sint_height_minus_1[OF assms(3)])
  have st: "unat (row_stride ?b) = spec_stride w"
    unfolding assms(5) by (rule unat_row_stride[OF assms(2,4)])
  have fits': "\<forall>i<?h. w \<le> length (pixels ed ! i)" using fits len by simp
  have rows: "save_rows ?h w (spec_stride w) (pixels ed)
      = Some (concat (map (saved_row w (spec_stride w)) (rev (pixels ed))))"
  proof -
    have "save_rows ?h w (spec_stride w) (pixels ed)
      = Some (concat (map (\<lambda>y. saved_row w (spec_stride w) (pixels ed ! y)) (rev [0..<?h])))"
      using save_rows_closed[OF _ fits', of "spec_stride w"] len by simp
    moreover have "map (\<lambda>y. saved_row w (spec_stride w) (pixels ed ! y)) (rev [0..<?h])
      = map (saved_row w (spec_stride w)) (rev (pixels ed))"
      using rev_rows[of "saved_row w (spec_stride w)" "pixels ed"] by (simp only: len)
    ultimately show ?thesis by (simp only:)
  qed
  have s: "save ed = (Returned, bytes_of_file_header (file_header ed)
                      @ bytes_of_info_block (info_block ed)
                      @ concat (map (saved_row w (spec_stride w)) (rev (pixels ed))))"
    using wb by (simp add: save_def Let_def n st assms(5)[symmetric] rows)
  have l: "length (concat (map (saved_row w (spec_stride w)) (rev (pixels ed))))
           = spec_stride w * ?h"
    using length_concat_const[of "rev (pixels ed)" "saved_row w (spec_stride w)" "spec_stride w"]
      fits len by (simp add: length_saved_row)
  from s l show ?thesis by simp
qed

lemma old_rows_fit_fresh: "pixels ed = [] \<Longrightarrow> old_rows_fit b ed"
  by (simp add: old_rows_fit_def)

lemma resize_rows_fit:
  assumes "list_all (\<lambda>r. w \<le> length r) (take h px)"
  shows "\<forall>i<h. w \<le> length (resize h w px ! i)"
proof (intro allI impI)
  fix i assume "i < h"
  show "w \<le> length (resize h w px ! i)"
  proof (cases "i < length (take h px)")
    case True
    then have "resize h w px ! i = take h px ! i" by (simp add: resize_def nth_append)
    moreover have "take h px ! i \<in> set (take h px)" using True by (rule nth_mem)
    ultimately show ?thesis using assms by (simp add: list_all_iff)
  next
    case False
    then have lp: "length px \<le> i" using \<open>i < h\<close> by simp
    then have lt: "length (take h px) = length px" using \<open>i < h\<close> by simp
    have "resize h w px ! i = replicate (h - length px) (replicate w 0) ! (i - length px)"
      unfolding resize_def nth_append lt using lp by simp
    moreover have "i - length px < h - length px" using lp \<open>i < h\<close> by simp
    ultimately show ?thesis by simp
  qed
qed

lemma read_returns:
  assumes "54 \<le> length data"
    and "type_of_file (file_header_in data) = 0x4D42"
    and "color_depth_in_bits (info_block_in data) = 24"
    and "\<not> int_counter_overflows (info_block_in data)"
    and "old_rows_fit (info_block_in data) ed"
    and "h = unat (height (info_block_in data))" and "w = unat (width (info_block_in data))"
  shows "read (Some data) ed =
     (Returned, ed\<lparr> file_header := file_header_in data, info_block := info_block_in data,
                   pixels := rows_stored data (unat (offset_to_pixel_data (file_header_in data)))
                               (spec_stride w) 0 h w (resize h w (pixels ed)),
                   fileWasRead := True \<rparr>)"
proof -
  let ?b = "info_block_in data"
  have bounds: "\<forall>i<h. w \<le> length (resize h w (pixels ed) ! i)"
    using assms(5) unfolding old_rows_fit_def assms(6,7) by (rule resize_rows_fit)
  have st: "spec_stride w = 3 * w + nat (padding ?b)"
    unfolding assms(7) using stride_of_padding[OF assms(3)] by simp
  from read_rows_closed[OF stream_at_seek _ length_resize bounds st, of 0 data]
  obtain s' where "read_rows 0 h w (padding ?b)
      \<lparr> contents = data, gpos = unat (offset_to_pixel_data (file_header_in data)),
        failbit = False \<rparr> (resize h w (pixels ed))
     = Some (s', rows_stored data (unat (offset_to_pixel_data (file_header_in data)))
                   (spec_stride w) 0 h w (resize h w (pixels ed)))"
    by auto
  then show ?thesis
    unfolding read_long[OF assms(1)] headers_read_in Let_def
    using assms(2,3,4) by (simp add: assms(6,7)[symmetric])
qed

lemma rows_stored_row:
  assumes "i < h"
  shows "rows_stored data p stride 0 h w px ! i
           = disk_row data (p + (h - 1 - i) * stride) w @ drop w (px ! i)"
  unfolding rows_stored_def using assms by simp

lemma length_rows_stored: "length (rows_stored data p stride y h w px) = h"
  by (simp add: rows_stored_def)

lemma length_disk_row: "length (disk_row data p w) = w"
  by (simp add: disk_row_def)

lemma grid_fits_after_read:
  assumes "read (Some data) ed = (Returned, ed')"
  shows "grid_fits ed'"
proof -
  note g = read_Returned_grid[OF assms]
  let ?h = "unat (height (info_block_in data))"
  let ?w = "unat (width (info_block_in data))"
  have "\<forall>r\<in>set (pixels ed'). ?w \<le> length r"
  proof
    fix r assume "r \<in> set (pixels ed')"
    then obtain i where i: "i < ?h" and r: "r = pixels ed' ! i"
      unfolding g(5) by (auto simp: in_set_conv_nth length_rows_stored)
    show "?w \<le> length r"
      unfolding r g(5) rows_stored_row[OF i] by (simp add: length_disk_row)
  qed
  then show ?thesis
    unfolding grid_fits_def g(2) by (simp add: g(5) length_rows_stored list_all_iff)
qed


lemma list2_nth: "length s = 2 \<Longrightarrow> [s ! 0, s ! 1] = (s::'a list)"
  by (rule nth_equalityI) (auto simp: less_Suc_eq numeral_2_eq_2)

lemma list4_nth: "length s = 4 \<Longrightarrow> [s ! 0, s ! 1, s ! 2, s ! 3] = (s::'a list)"
  by (rule nth_equalityI) (auto simp: less_Suc_eq eval_nat_numeral)

lemma length_slice: "off + n \<le> length m \<Longrightarrow> length (slice off n m) = n"
  by (simp add: slice_def)

lemma bytes_u16_slice:
  "off + 2 \<le> length m \<Longrightarrow> bytes_of_u16 (u16_of_bytes (slice off 2 m)) = slice off 2 m"
  unfolding bytes_of_u16_of_bytes by (rule list2_nth) (rule length_slice)

lemma bytes_u32_slice:
  "off + 4 \<le> length m \<Longrightarrow> bytes_of_u32 (u32_of_bytes (slice off 4 m)) = slice off 4 m"
  unfolding bytes_of_u32_of_bytes by (rule list4_nth) (rule length_slice)

lemma slice_append: "b = a + n \<Longrightarrow> slice a n m @ slice b k m = slice a (n + k) m"
proof -
  assume b: "b = a + n"
  have "take (n + k) (drop a m) = take n (drop a m) @ take k (drop n (drop a m))"
    by (rule take_add)
  moreover have "drop n (drop a m) = drop (a + n) m" by (simp add: add.commute)
  ultimately show ?thesis unfolding slice_def b by simp
qed

lemma bytes_of_file_header_of_bytes:
  assumes "14 \<le> length m"
  shows "bytes_of_file_header (file_header_of_bytes m) = take 14 m"
proof -
  have "bytes_of_file_header (file_header_of_bytes m)
      = slice 0 2 m @ slice 2 4 m @ slice 6 2 m @ slice 8 2 m @ slice 10 4 m"
    using assms
    by (simp add: bytes_of_file_header_def file_header_of_bytes_def bytes_u16_slice bytes_u32_slice)
  also have "\<dots> = slice 0 14 m" by (simp add: slice_append)
  finally show ?thesis by (simp add: slice_def)
qed

lemma bytes_of_info_block_of_bytes:
  assumes "40 \<le> length m"
  shows "bytes_of_info_block (info_block_of_bytes m) = take 40 m"
proof -
  have "bytes_of_info_block (info_block_of_bytes m)
      = slice 0 4 m @ slice 4 4 m @ slice 8 4 m @ slice 12 2 m @ slice 14 2 m @ slice 16 4 m
        @ slice 20 4 m @ slice 24 4 m @ slice 28 4 m @ slice 32 4 m @ slice 36 4 m"
    using assms
    by (simp add: bytes_of_info_block_def info_block_of_bytes_def bytes_u16_slice bytes_u32_slice)
  also have "\<dots> = slice 0 40 m" by (simp add: slice_append)
  finally show ?thesis by (simp add: slice_def)
qed

lemma headers_of_file:
  assumes "54 \<le> length data"
  shows "bytes_of_file_header (file_header_in data) @ bytes_of_info_block (info_block_in data)
           = take 54 data"
proof -
  have "bytes_of_file_header (file_header_in data) = take 14 data"
    unfolding file_header_in_def using assms by (simp add: bytes_of_file_header_of_bytes)
  moreover have "bytes_of_info_block (info_block_in data) = take 40 (drop 14 data)"
    unfolding info_block_in_def using assms by (simp add: bytes_of_info_block_of_bytes)
  moreover have "take 14 data @ take 40 (drop 14 data) = take (14 + 40) data"
    by (simp only: take_add)
  ultimately show ?thesis by simp
qed

lemma cell_bytes_pixel_at:
  "cell_bytes (pixel_at data q) = [byte_at data q, byte_at data (q + 1), byte_at data (q + 2)]"
  by (simp add: cell_bytes_def pixel_at_def pack_blue pack_green pack_red)

lemma take_3_drop:
  assumes "q + 3 \<le> length data"
  shows "take 3 (drop q data) = [byte_at data q, byte_at data (q + 1), byte_at data (q + 2)]"
proof (rule nth_equalityI)
  show "length (take 3 (drop q data)) = length [byte_at data q, byte_at data (q + 1), byte_at data (q + 2)]"
    using assms by simp
next
  fix i assume "i < length (take 3 (drop q data))"
  then have "i < 3" by simp
  then consider "i = 0" | "i = 1" | "i = 2" by linarith
  then show "take 3 (drop q data) ! i = [byte_at data q, byte_at data (q + 1), byte_at data (q + 2)] ! i"
    using assms by cases (simp_all add: byte_at_def)
qed

lemma disk_row_Suc: "disk_row data p (Suc w) = disk_row data p w @ [pixel_at data (p + 3 * w)]"
  by (simp add: disk_row_def)

lemma cells_of_disk_row:
  "p + 3 * w \<le> length data \<Longrightarrow>
   concat (map cell_bytes (disk_row data p w)) = take (3 * w) (drop p data)"
proof (induction w)
  case 0
  then show ?case by (simp add: disk_row_def)
next
  case (Suc w)
  have "3 * Suc w = 3 * w + 3" by simp
  then have "take (3 * Suc w) (drop p data) = take (3 * w + 3) (drop p data)" by (simp only:)
  also have "\<dots> = take (3 * w) (drop p data) @ take 3 (drop (3 * w) (drop p data))"
    by (rule take_add)
  also have "drop (3 * w) (drop p data) = drop (p + 3 * w) data" by (simp add: add.commute)
  also have "take 3 (drop (p + 3 * w) data)
      = [byte_at data (p + 3 * w), byte_at data (p + 3 * w + 1), byte_at data (p + 3 * w + 2)]"
    using Suc.prems by (intro take_3_drop) simp
  finally show ?case using Suc by (simp add: disk_row_Suc cell_bytes_pixel_at)
qed

lemma zeros_of_data:
  assumes "p + stride \<le> length (data::byte list)" and "3 * w \<le> stride"
    and "list_all (\<lambda>k. data ! (p + k) = 0) [3 * w..<stride]"
  shows "replicate (stride - 3 * w) 0 = take (stride - 3 * w) (drop (p + 3 * w) data)"
proof (rule nth_equalityI)
  show "length (replicate (stride - 3 * w) (0::byte)) = length (take (stride - 3 * w) (drop (p + 3 * w) data))"
    using assms(1,2) by simp
next
  fix i assume "i < length (replicate (stride - 3 * w) (0::byte))"
  then have i: "i < stride - 3 * w" by simp
  then have "3 * w + i \<in> set [3 * w..<stride]" by simp
  with assms(3) have "data ! (p + (3 * w + i)) = 0" unfolding list_all_iff by blast
  then show "replicate (stride - 3 * w) 0 ! i = take (stride - 3 * w) (drop (p + 3 * w) data) ! i"
    using i assms(1,2) by (simp add: add.assoc)
qed

lemma saved_row_of_data:
  assumes "p + stride \<le> length data" and "3 * w \<le> stride"
    and "list_all (\<lambda>k. data ! (p + k) = 0) [3 * w..<stride]"
  shows "saved_row w stride (disk_row data p w @ rest) = take stride (drop p data)"
proof -
  have "concat (map cell_bytes (take w (disk_row data p w @ rest))) = take (3 * w) (drop p data)"
    using assms(1,2) by (simp add: length_disk_row cells_of_disk_row)
  moreover have "take stride (drop p data)
      = take (3 * w) (drop p data) @ take (stride - 3 * w) (drop (3 * w) (drop p data))"
    using take_add[of "3 * w" "stride - 3 * w" "drop p data"] assms(2) by simp
  moreover have "drop (3 * w) (drop p data) = drop (p + 3 * w) data" by (simp add: add.commute)
  ultimately show ?thesis
    unfolding saved_row_def using zeros_of_data[OF assms] by simp
qed

lemma concat_strides:
  "concat (map (\<lambda>d. take stride (drop (off + d * stride) data)) [0..<h])
     = take (stride * h) (drop off data)"
proof (induction h)
  case 0
  then show ?case by simp
next
  case (Suc h)
  have "stride * Suc h = stride * h + stride" by simp
  then have "take (stride * Suc h) (drop off data)
      = take (stride * h) (drop off data) @ take stride (drop (stride * h) (drop off data))"
    by (simp only: take_add)
  moreover have "drop (stride * h) (drop off data) = drop (off + h * stride) data"
    by (simp add: add.commute mult.commute)
  ultimately show ?case using Suc by simp
qed

lemma rev_rows_stored:
  "rev (rows_stored data p stride 0 h w px)
     = map (\<lambda>d. disk_row data (p + d * stride) w @ drop w (px ! (h - 1 - d))) [0..<h]"
proof (rule nth_equalityI)
  show "length (rev (rows_stored data p stride 0 h w px))
      = length (map (\<lambda>d. disk_row data (p + d * stride) w @ drop w (px ! (h - 1 - d))) [0..<h])"
    by (simp add: length_rows_stored)
next
  fix i assume "i < length (rev (rows_stored data p stride 0 h w px))"
  then have i: "i < h" by (simp add: length_rows_stored)
  then have j: "h - Suc i < h" by simp
  have e: "h - 1 - (h - Suc i) = i" using i by simp
  have "rev (rows_stored data p stride 0 h w px) ! i = rows_stored data p stride 0 h w px ! (h - Suc i)"
    using i by (simp add: rev_nth length_rows_stored)
  also have "\<dots> = disk_row data (p + i * stride) w @ drop w (px ! (h - Suc i))"
    unfolding rows_stored_row[OF j] e ..
  finally show "rev (rows_stored data p stride 0 h w px) ! i
      = map (\<lambda>d. disk_row data (p + d * stride) w @ drop w (px ! (h - 1 - d))) [0..<h] ! i"
    using i by simp
qed

lemma saved_rows_of_file:
  assumes "off + stride * h \<le> length (data::byte list)" and "3 * w \<le> stride"
    and "list_all (\<lambda>d. list_all (\<lambda>k. data ! (off + d * stride + k) = 0) [3 * w..<stride]) [0..<h]"
  shows "concat (map (saved_row w stride) (rev (rows_stored data off stride 0 h w px)))
           = take (stride * h) (drop off data)"
proof -
  have "map (saved_row w stride) (rev (rows_stored data off stride 0 h w px))
      = map (\<lambda>d. saved_row w stride (disk_row data (off + d * stride) w @ drop w (px ! (h - 1 - d))))
          [0..<h]"
    unfolding rev_rows_stored by simp
  also have "\<dots> = map (\<lambda>d. take stride (drop (off + d * stride) data)) [0..<h]"
  proof (rule map_cong[OF refl])
    fix d assume "d \<in> set [0..<h]"
    then have d: "d < h" by simp
    then have "Suc d * stride \<le> h * stride" by (intro mult_le_mono1) simp
    then have le: "off + d * stride + stride \<le> length data"
      using assms(1) by (simp add: mult.commute)
    have z: "list_all (\<lambda>k. data ! (off + d * stride + k) = 0) [3 * w..<stride]"
      using assms(3) d unfolding list_all_iff[of _ "[0..<h]"] by simp
    show "saved_row w stride (disk_row data (off + d * stride) w @ drop w (px ! (h - 1 - d)))
        = take stride (drop (off + d * stride) data)"
      by (rule saved_row_of_data[OF le assms(2) z])
  qed
  finally show ?thesis by (simp only: concat_strides)
qed


subsection \<open>The loop of \<open>drawCross\<close>\<close>

lemma unat_of_nat_32: "i < 2 ^ 32 \<Longrightarrow> unat (of_nat i :: 32 word) = i"
  by (simp add: unat_of_nat)

lemma unat_mirror_column:
  assumes "i < unat (w::32 word)"
  shows "unat (w - of_nat i - 1) = unat w - i - 1"
proof -
  have lt: "unat w < 2 ^ 32" using unsigned_less[of w] by simp
  then have k: "Suc i < 2 ^ 32" using assms by simp
  have u: "unat (of_nat (Suc i) :: 32 word) = Suc i" using k by (rule unat_of_nat_32)
  then have "(of_nat (Suc i) :: 32 word) \<le> w" using assms by (simp add: word_le_nat_alt)
  then have "unat (w - of_nat (Suc i)) = unat w - unat (of_nat (Suc i) :: 32 word)"
    by (rule unat_sub)
  then have a: "unat (w - of_nat (Suc i)) = unat w - Suc i" by (simp only: u)
  have e: "w - of_nat i - 1 = w - of_nat (Suc i)" by simp
  show ?thesis unfolding e a by simp
qed

lemma drawCross_loop_closed:
  assumes "i \<le> n" and "n \<le> length px" and "n \<le> unat w"
    and "\<forall>k<n. unat w \<le> length (px ! k)"
  shows "drawCross_loop i n w color px =
           Some (map (\<lambda>k. if i \<le> k \<and> k < n then cross_row (unat w) k color (px ! k) else px ! k)
                   [0..<length px])"
  using assms(1,2,4)
proof (induction m \<equiv> "n - i" arbitrary: i px)
  case 0
  then have "i = n" by simp
  then have "map (\<lambda>k. if i \<le> k \<and> k < n then cross_row (unat w) k color (px ! k) else px ! k)
                   [0..<length px] = map ((!) px) [0..<length px]"
    by (intro map_cong[OF refl]) auto
  then show ?case using \<open>i = n\<close> by (subst drawCross_loop.simps) (simp add: map_nth)
next
  case (Suc m)
  from Suc.hyps(2) have lt: "i < n" and m: "m = n - (i + 1)" by simp_all
  have il: "i < length px" using lt Suc.prems(2) by simp
  have iw: "i < unat w" using lt assms(3) by simp
  have rl: "unat w \<le> length (px ! i)" using Suc.prems(3) lt by simp
  let ?j = "unat (w - of_nat i - 1)"
  have j: "?j = unat w - i - 1" by (rule unat_mirror_column[OF iw])
  let ?px2 = "px[i := cross_row (unat w) i color (px ! i)]"
  have jl: "unat w - Suc i < length (px ! i)" using iw rl by simp
  have step: "drawCross_loop i n w color px = drawCross_loop (i + 1) n w color ?px2"
    using lt il iw rl j jl by (subst drawCross_loop.simps) (simp add: Let_def cross_row_def)
  have l2: "n \<le> length ?px2" using Suc.prems(2) by simp
  have w2: "\<forall>k<n. unat w \<le> length (?px2 ! k)"
  proof (intro allI impI)
    fix k assume k: "k < n"
    then have "unat w \<le> length (px ! k)" using Suc.prems(3) by simp
    then show "unat w \<le> length (?px2 ! k)"
      using il rl by (cases "k = i") (simp_all add: cross_row_def)
  qed
  have ih: "drawCross_loop (i + 1) n w color ?px2 =
      Some (map (\<lambda>k. if i + 1 \<le> k \<and> k < n then cross_row (unat w) k color (?px2 ! k) else ?px2 ! k)
              [0..<length ?px2])"
    using Suc.hyps(1)[OF m _ l2 w2] lt by simp
  have eq: "map (\<lambda>k. if i + 1 \<le> k \<and> k < n then cross_row (unat w) k color (?px2 ! k) else ?px2 ! k)
              [0..<length ?px2]
      = map (\<lambda>k. if i \<le> k \<and> k < n then cross_row (unat w) k color (px ! k) else px ! k)
              [0..<length px]"
  proof (rule nth_equalityI)
    show "length (map (\<lambda>k. if i + 1 \<le> k \<and> k < n then cross_row (unat w) k color (?px2 ! k)
                          else ?px2 ! k) [0..<length ?px2])
        = length (map (\<lambda>k. if i \<le> k \<and> k < n then cross_row (unat w) k color (px ! k)
                            else px ! k) [0..<length px])" by simp
  next
    fix k assume "k < length (map (\<lambda>k. if i + 1 \<le> k \<and> k < n
        then cross_row (unat w) k color (?px2 ! k) else ?px2 ! k) [0..<length ?px2])"
    then have k: "k < length px" by simp
    show "map (\<lambda>k. if i + 1 \<le> k \<and> k < n then cross_row (unat w) k color (?px2 ! k) else ?px2 ! k)
              [0..<length ?px2] ! k
        = map (\<lambda>k. if i \<le> k \<and> k < n then cross_row (unat w) k color (px ! k) else px ! k)
              [0..<length px] ! k"
      using k lt il by (cases "k = i") (simp_all add: nth_list_update)
  qed
  show ?case unfolding step ih eq ..
qed


lemma unat_min: "unat (min (a::32 word) b) = min (unat a) (unat b)"
  by (simp add: min_def word_le_nat_alt)

lemma drawCross_closed:
  assumes "fileWasRead ed" and "grid_fits ed" and "unat (height (info_block ed)) < 2 ^ 31"
    and "h = unat (height (info_block ed))" and "w = unat (width (info_block ed))"
  shows "drawCross blue green red ed =
     (Returned, ed\<lparr> pixels := map (\<lambda>k. if k < min h w
                                         then cross_row w k (pack_color blue green red) (pixels ed ! k)
                                         else pixels ed ! k) [0..<h] \<rparr>)"
proof -
  let ?n = "min (height (info_block ed)) (width (info_block ed))"
  have len: "length (pixels ed) = h" and fits: "\<forall>r\<in>set (pixels ed). w \<le> length r"
    using assms(2,4,5) by (simp_all add: grid_fits_def list_all_iff)
  have n: "unat ?n = min h w" unfolding unat_min assms(4,5) ..
  have nb: "\<not> 2 ^ 31 \<le> unat ?n" using assms(3) unfolding n assms(4) by simp
  have fits': "\<forall>k<unat ?n. unat (width (info_block ed)) \<le> length (pixels ed ! k)"
    using fits len unfolding n assms(5)[symmetric] by simp
  have "drawCross_loop 0 (unat ?n) (width (info_block ed)) (pack_color blue green red) (pixels ed)
      = Some (map (\<lambda>k. if 0 \<le> k \<and> k < unat ?n
                         then cross_row (unat (width (info_block ed))) k (pack_color blue green red)
                                (pixels ed ! k)
                         else pixels ed ! k) [0..<length (pixels ed)])"
    by (rule drawCross_loop_closed[OF _ _ _ fits']) (simp_all add: n len assms(5)[symmetric])
  then show ?thesis
    using assms(1) nb by (simp add: drawCross_def Let_def n len assms(5)[symmetric])
qed

lemma cross_row_nth:
  assumes "i < w" and "w \<le> length r" and "j < length r"
  shows "cross_row w i color r ! j = (if j = i \<or> j = w - 1 - i then color else r ! j)"
  using assms by (auto simp: cross_row_def nth_list_update)

lemma length_cross_row: "length (cross_row w i color r) = length r"
  by (simp add: cross_row_def)


subsection \<open>Concrete runs of \<open>read\<close>\<close>

lemma length_bmp_headers: "length (bmp_headers h b) = 54"
  by (simp add: bmp_headers_def length_bytes_of_file_header length_bytes_of_info_block)

lemma headers_read_serialized:
  "headers_read (bmp_headers h b @ pix) ed = ed\<lparr> file_header := h, info_block := b \<rparr>"
  using file_header_of_bytes_of[of h "[]"] info_block_of_bytes_of[of b "[]"]
  by (simp add: headers_read_def bmp_headers_def length_bytes_of_file_header
        length_bytes_of_info_block)

lemma read_1x1:
  "read (Some (bmp_headers header_bm (info_24bpp 1 1) @ [1, 2, 3, 0])) unloaded_editor
     = (Returned, loaded_1x1)"
  apply (simp add: read_long length_bmp_headers headers_read_serialized Let_def)
  apply (simp add: header_bm_def info_24bpp_def unloaded_editor_def int_counter_overflows_def)
  apply (simp add: padding_def row_size_def bytes_per_pixel_def resize_def)
  apply (simp add: read_rows.simps)
  apply (simp add: read_row.simps)
  apply (simp add: read_u8_def ifstream_read_def length_bmp_headers pack_color_def)
  apply (simp add: read_rows.simps)
  apply (simp add: unloaded_editor_def header_bm_def info_24bpp_def loaded_1x1_def)
  done

lemma read_zeros_loaded:
  "read (Some (replicate 54 0)) loaded_1x1 =
     (Threw NotABmpFile, loaded_1x1\<lparr> file_header := file_header_of_bytes (replicate 14 0),
                                      info_block := info_block_of_bytes (replicate 40 0) \<rparr>)"
  apply (simp add: read_long Let_def headers_read_def)
  apply (simp add: file_header_of_bytes_def slice_def u16_of_bytes_def)
  done

lemma read_2x2: "read (Some bmp_2x2) unloaded_editor = (Returned, loaded_2x2)"
  unfolding bmp_2x2_def
  apply (simp add: read_long length_bmp_headers headers_read_serialized Let_def)
  apply (simp add: header_bm_def info_24bpp_def unloaded_editor_def int_counter_overflows_def)
  apply (simp add: padding_def row_size_def bytes_per_pixel_def resize_def)
  apply (simp add: read_rows.simps read_row.simps read_u8_def ifstream_read_def length_bmp_headers pack_color_def seekg_cur_def)
  apply (simp add: unloaded_editor_def header_bm_def info_24bpp_def loaded_2x2_def numeral_2_eq_2)
  done

lemma file_header_in_serialized: "file_header_in (bmp_headers h b @ pix) = h"
  using file_header_of_bytes_of[of h "[]"]
  by (simp add: file_header_in_def bmp_headers_def length_bytes_of_file_header)

lemma info_block_in_serialized: "info_block_in (bmp_headers h b @ pix) = b"
  using info_block_of_bytes_of[of b "[]"]
  by (simp add: info_block_in_def bmp_headers_def length_bytes_of_file_header
        length_bytes_of_info_block)

lemma replicate_2: "replicate 2 x = [x, x]"
  by (simp add: numeral_2_eq_2)

lemma replicate_3: "replicate 3 x = [x, x, x]"
  by (simp add: numeral_3_eq_3)

lemma read_3x2: "read (Some bmp_3x2) unloaded_editor = (Returned, loaded_3x2)"
  unfolding bmp_3x2_def
  apply (simp add: read_long length_bmp_headers headers_read_serialized Let_def)
  apply (simp add: header_bm_def info_24bpp_def unloaded_editor_def int_counter_overflows_def)
  apply (simp add: padding_def row_size_def bytes_per_pixel_def resize_def)
  apply (simp add: read_rows.simps read_row.simps read_u8_def ifstream_read_def length_bmp_headers pack_color_def seekg_cur_def)
  apply (simp add: unloaded_editor_def header_bm_def info_24bpp_def loaded_3x2_def replicate_2 replicate_3)
  done


subsection \<open>The magic tag\<close>

text \<open>
  C8 (as amended). For every source of at least 54 bytes, \<open>read\<close> fails with the
  "not of the BMP type" error exactly when the first two bytes are not \<open>0x42 0x4D\<close>.
  (The tag is examined only after both header blocks have been read.)
\<close>

theorem magic_checked_after_headers:
  assumes "54 \<le> length data"
  shows "fst (read (Some data) ed) = Threw NotABmpFile
           \<longleftrightarrow> \<not> (data ! 0 = 0x42 \<and> data ! 1 = 0x4D)"
proof -
  have m: "type_of_file (file_header (headers_read data ed)) = 0x4D42
      \<longleftrightarrow> data ! 0 = 0x42 \<and> data ! 1 = 0x4D"
    using assms magic_of_file[of data] by (simp add: headers_read_def)
  show ?thesis
    unfolding read_long[OF assms] m[symmetric]
    by (simp add: Let_def split: option.splits prod.splits)
qed

theorem magic_checked_after_headers_witness:
  "54 \<le> length (replicate 54 (0::byte))
   \<and> fst (read (Some (replicate 54 0)) unloaded_editor) = Threw NotABmpFile"
  using magic_checked_after_headers[of "replicate 54 0" unloaded_editor] by simp

text \<open>
  C8 as stated fails: a source of 20 zero bytes does not start with \<open>0x42 0x4D\<close>, and
  \<open>read\<close> fails on it with the read error of \<open>check_error\<close>, not with the
  "not of the BMP type" error.
\<close>

theorem short_file_wrong_magic_counterexample:
  "replicate 20 (0::byte) ! 0 \<noteq> 0x42
   \<and> fst (read (Some (replicate 20 0)) unloaded_editor) = Threw ReadFailure
   \<and> fst (read (Some (replicate 20 0)) unloaded_editor) \<noteq> Threw NotABmpFile"
  by (simp add: read_short)

subsection \<open>Short pixel data\<close>

text \<open>
  C2. The claim is that a source with fewer pixel bytes than the header implies makes
  \<open>read\<close> fail. The pixel loop of \<open>read\<close> never calls \<open>check_error\<close>: on a file that
  ends right after the two header blocks of a 1x1 image, \<open>read\<close> returns normally, with
  the pixel 0 in the grid and \<open>fileWasRead\<close> set.
\<close>

theorem truncated_pixel_data_accepted:
  "length (bmp_headers header_bm (info_24bpp 1 1)) = 54
   \<and> read (Some (bmp_headers header_bm (info_24bpp 1 1))) unloaded_editor =
     (Returned, \<lparr> file_header = header_bm, info_block = info_24bpp 1 1, pixels = [[0]],
                  fileWasRead = True \<rparr>)"
  apply (simp add: read_long length_bmp_headers headers_read_serialized[of _ _ "[]", simplified] Let_def)
  apply (simp add: header_bm_def info_24bpp_def unloaded_editor_def int_counter_overflows_def)
  apply (simp add: padding_def row_size_def bytes_per_pixel_def resize_def)
  apply (simp add: read_rows.simps)
  apply (simp add: read_row.simps)
  apply (simp add: read_u8_def ifstream_read_def length_bmp_headers pack_color_def)
  apply (simp add: read_rows.simps)
  apply (simp add: unloaded_editor_def header_bm_def info_24bpp_def)
  done

subsection \<open>What a failed \<open>read\<close> leaves behind\<close>

text \<open>
  C6 (as amended). Whenever \<open>read\<close> fails with an error, the pixel grid and the flag
  \<open>fileWasRead\<close> are what they were before the call. (The members \<open>file_header\<close> and
  \<open>info_block\<close> are not covered: they are written before the checks.)
\<close>

theorem failed_read_keeps_grid:
  assumes "fst (read file ed) = Threw e"
  shows "pixels (snd (read file ed)) = pixels ed
       \<and> fileWasRead (snd (read file ed)) = fileWasRead ed"
  using assms
  by (auto simp: read_def Let_def split: option.splits prod.splits if_splits)

theorem failed_read_keeps_grid_witness:
  "fst (read (Some (replicate 54 0)) loaded_1x1) = Threw NotABmpFile
   \<and> pixels (snd (read (Some (replicate 54 0)) loaded_1x1)) = [[0x010203]]
   \<and> fileWasRead (snd (read (Some (replicate 54 0)) loaded_1x1))"
  using failed_read_keeps_grid[of "Some (replicate 54 0)" loaded_1x1 NotABmpFile]
  unfolding read_zeros_loaded by (simp add: loaded_1x1_def)

text \<open>
  C6 as stated fails: after a successful \<open>read\<close> of a 1x1 image, a \<open>read\<close> of 54 zero
  bytes fails with the "not of the BMP type" error and leaves the rejected file's header
  in the object, next to the grid of the first image.
\<close>

theorem failed_read_overwrites_headers:
  "read (Some (bmp_headers header_bm (info_24bpp 1 1) @ [1, 2, 3, 0])) unloaded_editor
     = (Returned, loaded_1x1)
   \<and> fst (read (Some (replicate 54 0)) loaded_1x1) = Threw NotABmpFile
   \<and> type_of_file (file_header (snd (read (Some (replicate 54 0)) loaded_1x1)))
       \<noteq> type_of_file (file_header loaded_1x1)"
  unfolding read_1x1 read_zeros_loaded
  by (simp add: file_header_of_bytes_def slice_def u16_of_bytes_def loaded_1x1_def header_bm_def)

subsection \<open>\<open>save\<close> before any \<open>read\<close>\<close>

text \<open>
  C7. The claim is that \<open>save\<close>, like \<open>drawCross\<close>, refuses to run before a successful
  \<open>read\<close>. \<open>save\<close> has no such check: on an object on which nothing was read it returns
  normally, having written the 54 bytes of the two structs.
\<close>

theorem save_before_read:
  "\<not> fileWasRead unloaded_editor
   \<and> save unloaded_editor
       = (Returned, bmp_headers (file_header unloaded_editor) (info_block unloaded_editor))
   \<and> length (snd (save unloaded_editor)) = 54"
  by (simp add: save_def unloaded_editor_def Let_def bmp_headers_def length_bytes_of_file_header
        length_bytes_of_info_block)

lemma drawCross_before_read:
  "\<not> fileWasRead ed \<Longrightarrow> drawCross blue green red ed = (Threw InvalidState, ed)"
  by (simp add: drawCross_def)

lemma save_never_throws: "fst (save ed) \<noteq> Threw e"
  by (simp add: save_def Let_def split: option.splits)

subsection \<open>The compression field\<close>


subsection \<open>Row order\<close>

text \<open>
  C4. After a \<open>read\<close> that returns, the pixel read as the \<open>x\<close>-th of the \<open>d\<close>-th disk row
  (its three bytes standing at offset \<open>q\<close> of the file: the declared offset, plus \<open>d\<close>
  strides, plus \<open>3 x\<close>) is stored at row \<open>height - 1 - d\<close>, column \<open>x\<close> of the grid, packed
  with blue in bits 16-23, green in bits 8-15 and red in bits 0-7.
\<close>

theorem read_inverts_row_order:
  assumes "read (Some data) ed = (Returned, ed')"
    and "d < unat (height (info_block ed'))" and "x < unat (width (info_block ed'))"
    and "q = unat (offset_to_pixel_data (file_header ed'))
             + d * spec_stride (unat (width (info_block ed'))) + 3 * x"
  shows "file_header ed' = file_header_in data \<and> info_block ed' = info_block_in data
    \<and> pixels ed' ! (unat (height (info_block ed')) - 1 - d) ! x
        = push_bit 16 (ucast (byte_at data q)) OR push_bit 8 (ucast (byte_at data (q + 1)))
          OR ucast (byte_at data (q + 2))"
proof -
  note g = read_Returned_grid[OF assms(1)]
  from assms(2,3) have dh: "d < unat (height (info_block_in data))"
    and xw: "x < unat (width (info_block_in data))" by (simp_all add: g(2))
  show ?thesis
    unfolding g(5) assms(4) g(1) g(2) rows_stored_nth[OF dh xw]
    by (simp add: pixel_at_def pack_color_def)
qed

theorem read_inverts_row_order_witness:
  "read (Some bmp_2x2) unloaded_editor = (Returned, loaded_2x2)
   \<and> (1::nat) < unat (height (info_block loaded_2x2))
   \<and> (0::nat) < unat (width (info_block loaded_2x2))
   \<and> map (byte_at bmp_2x2) [62, 63, 64] = [7, 8, 9]
   \<and> pixels loaded_2x2 ! 0 ! 0
       = push_bit 16 (ucast (7::byte)) OR push_bit 8 (ucast (8::byte)) OR ucast (9::byte)"
proof -
  have h: "1 < unat (height (info_block loaded_2x2))"
    and w: "0 < unat (width (info_block loaded_2x2))"
    by (simp_all add: loaded_2x2_def info_24bpp_def)
  have q: "62 = unat (offset_to_pixel_data (file_header loaded_2x2))
             + 1 * spec_stride (unat (width (info_block loaded_2x2))) + 3 * 0"
    by (simp add: loaded_2x2_def header_bm_def info_24bpp_def spec_stride_def)
  have b: "map (byte_at bmp_2x2) [62, 63, 64] = [7, 8, 9]"
    by (simp add: byte_at_def bmp_2x2_def length_bmp_headers nth_append)
  have i: "unat (height (info_block loaded_2x2)) - 1 - 1 = 0"
    by (simp add: loaded_2x2_def info_24bpp_def)
  from read_inverts_row_order[OF read_2x2 h w q]
  have "pixels loaded_2x2 ! 0 ! 0
       = push_bit 16 (ucast (byte_at bmp_2x2 62)) OR push_bit 8 (ucast (byte_at bmp_2x2 (62 + 1)))
         OR ucast (byte_at bmp_2x2 (62 + 2))"
    unfolding i by simp
  with b have "pixels loaded_2x2 ! 0 ! 0
       = push_bit 16 (ucast (7::byte)) OR push_bit 8 (ucast (8::byte)) OR ucast (9::byte)"
    by simp
  with read_2x2 h w b show ?thesis by simp
qed

subsection \<open>What \<open>save\<close> writes\<close>

text \<open>
  Below the same sizes, on an object whose grid fits its info block, \<open>save\<close> writes, after
  the two structs, the rows of the grid from row \<open>height - 1\<close> down to row 0; each row is
  the blue, green and red byte of each of its \<open>width\<close> cells, followed by
  \<open>stride - 3 * width\<close> zero bytes; the pixel section is \<open>stride * height\<close> bytes long.
  This is \<open>save_closed\<close>; here it is on the 2x2 image.
\<close>

lemma save_closed_2x2:
  "grid_fits loaded_2x2 \<and> color_depth_in_bits (info_block loaded_2x2) = 24
   \<and> unat (height (info_block loaded_2x2)) < 2 ^ 31
   \<and> 24 * unat (width (info_block loaded_2x2)) + 31 < 2 ^ 32
   \<and> save loaded_2x2 = (Returned, bmp_headers header_bm (info_24bpp 2 2)
                           @ [1, 2, 3, 4, 5, 6, 0, 0, 7, 8, 9, 10, 11, 12, 0, 0])"
proof -
  have g: "grid_fits loaded_2x2"
    by (simp add: grid_fits_def loaded_2x2_def info_24bpp_def)
  have d: "color_depth_in_bits (info_block loaded_2x2) = 24"
    and h: "unat (height (info_block loaded_2x2)) < 2 ^ 31"
    and w: "24 * unat (width (info_block loaded_2x2)) + 31 < 2 ^ 32"
    and w2: "2 = unat (width (info_block loaded_2x2))"
    by (simp_all add: loaded_2x2_def info_24bpp_def)
  have c: "cell_bytes 0x070809 = [7, 8, 9]" "cell_bytes 0x0A0B0C = [10, 11, 12]"
    "cell_bytes 0x010203 = [1, 2, 3]" "cell_bytes 0x040506 = [4, 5, 6]"
    by (simp_all add: cell_bytes_def blue_of_def green_of_def red_of_def)
  from save_closed[OF g d h w w2]
  have "save loaded_2x2 = (Returned, bmp_headers header_bm (info_24bpp 2 2)
                           @ [1, 2, 3, 4, 5, 6, 0, 0, 7, 8, 9, 10, 11, 12, 0, 0])"
    by (simp add: loaded_2x2_def bmp_headers_def saved_row_def spec_stride_def c replicate_2)
  with g d h w show ?thesis by simp
qed

subsection \<open>The compression field is not examined\<close>



subsection \<open>Reading and saving again\<close>

text \<open>
  Below the sizes at which the 32-bit arithmetic wraps around (height under \<open>2^31\<close>, and
  \<open>24 * width + 31\<close> under \<open>2^32\<close>, that is width up to 178956969), the round trip holds:
  for a well-formed stream \<open>read\<close> returns, the two stored structs are those of the
  stream, and \<open>save\<close> then writes the first 54 bytes of the stream followed by its pixel
  data section, \<open>stride * height\<close> bytes from the declared offset on, byte for byte.
\<close>

lemma roundtrip_below_wrap:
  assumes "well_formed_bmp data" and "old_rows_fit (info_block_in data) ed"
    and "unat (height (info_block_in data)) < 2 ^ 31"
    and "24 * unat (width (info_block_in data)) + 31 < 2 ^ 32"
  shows "fst (read (Some data) ed) = Returned
       \<and> file_header (snd (read (Some data) ed)) = file_header_in data
       \<and> info_block (snd (read (Some data) ed)) = info_block_in data
       \<and> save (snd (read (Some data) ed))
           = (Returned,
              take 54 data
              @ take (spec_stride (unat (width (info_block_in data)))
                        * unat (height (info_block_in data)))
                  (drop (unat (offset_to_pixel_data (file_header_in data))) data))"
proof -
  let ?b = "info_block_in data"
  let ?w = "unat (width ?b)"
  let ?h = "unat (height ?b)"
  let ?off = "unat (offset_to_pixel_data (file_header_in data))"
  let ?st = "spec_stride ?w"
  let ?px = "rows_stored data ?off ?st 0 ?h ?w (resize ?h ?w (pixels ed))"
  let ?ed' = "ed\<lparr> file_header := file_header_in data, info_block := ?b, pixels := ?px,
                  fileWasRead := True \<rparr>"
  from assms(1) have len: "54 \<le> length data"
    and magic: "type_of_file (file_header_in data) = 0x4D42"
    and depth: "color_depth_in_bits ?b = 24"
    and fit: "?off + ?st * ?h \<le> length data"
    and zeros: "list_all (\<lambda>d. list_all (\<lambda>k. data ! (?off + d * ?st + k) = 0) [3 * ?w..<?st])
                  [0..<?h]"
    unfolding well_formed_bmp_def Let_def by simp_all
  note hb = assms(3) and wb = assms(4)
  have no: "\<not> int_counter_overflows ?b"
    using hb wb by (simp add: int_counter_overflows_def)
  have r: "read (Some data) ed = (Returned, ?ed')"
    by (rule read_returns[OF len magic depth no assms(2) refl refl])
  have gf: "grid_fits ?ed'" by (rule grid_fits_after_read[OF r])
  have s: "save ?ed' = (Returned, bytes_of_file_header (file_header ?ed')
                      @ bytes_of_info_block (info_block ?ed')
                      @ concat (map (saved_row ?w ?st) (rev (pixels ?ed'))))"
    using save_closed[OF gf, of ?w] depth hb wb by simp
  have body: "concat (map (saved_row ?w ?st) (rev ?px)) = take (?st * ?h) (drop ?off data)"
    by (rule saved_rows_of_file[OF fit spec_stride_ge zeros])
  have "save ?ed' = (Returned, take 54 data @ take (?st * ?h) (drop ?off data))"
    unfolding s using headers_of_file[OF len] body by simp
  then show ?thesis unfolding r by simp
qed

lemma roundtrip_below_wrap_2x2:
  "well_formed_bmp bmp_2x2
   \<and> old_rows_fit (info_block_in bmp_2x2) unloaded_editor
   \<and> fst (read (Some bmp_2x2) unloaded_editor) = Returned
   \<and> save (snd (read (Some bmp_2x2) unloaded_editor)) = (Returned, bmp_2x2)"
proof -
  have fh: "file_header_in bmp_2x2 = header_bm"
    and ib: "info_block_in bmp_2x2 = info_24bpp 2 2"
    unfolding bmp_2x2_def by (rule file_header_in_serialized, rule info_block_in_serialized)
  have len: "length bmp_2x2 = 70" by (simp add: bmp_2x2_def length_bmp_headers)
  have nth: "bmp_2x2 ! 60 = 0" "bmp_2x2 ! 61 = 0" "bmp_2x2 ! 68 = 0" "bmp_2x2 ! 69 = 0"
    by (simp_all add: bmp_2x2_def nth_append length_bmp_headers)
  have upt: "[0..<2] = [0, Suc 0]" by (simp add: numeral_2_eq_2)
  have wf: "well_formed_bmp bmp_2x2"
    unfolding well_formed_bmp_def fh ib Let_def
    by (simp add: len header_bm_def info_24bpp_def spec_stride_def nth upt_rec_numeral upt)
  have orf: "old_rows_fit (info_block_in bmp_2x2) unloaded_editor"
    by (simp add: old_rows_fit_def unloaded_editor_def)
  have whole: "take 54 bmp_2x2 @ take (spec_stride (unat (width (info_block_in bmp_2x2)))
                        * unat (height (info_block_in bmp_2x2)))
                  (drop (unat (offset_to_pixel_data (file_header_in bmp_2x2))) bmp_2x2) = bmp_2x2"
    unfolding fh ib by (simp add: header_bm_def info_24bpp_def spec_stride_def len)
  have hb: "unat (height (info_block_in bmp_2x2)) < 2 ^ 31"
    and wb: "24 * unat (width (info_block_in bmp_2x2)) + 31 < 2 ^ 32"
    unfolding ib by (simp_all add: info_24bpp_def)
  from roundtrip_below_wrap[OF wf orf hb wb] wf orf show ?thesis
    unfolding whole by simp
qed

subsection \<open>The cross\<close>

text \<open>
  C10. After a \<open>read\<close> that returned, \<open>drawCross\<close> returns; it sets the cells \<open>(i, i)\<close>
  and \<open>(i, width - 1 - i)\<close> for every \<open>i\<close> below \<open>min height width\<close> to the colour packed
  from its three arguments, and leaves every other cell, the length of the grid and of each
  of its rows, both structs and the flag as they were.
\<close>

theorem drawCross_frame:
  assumes "read (Some data) ed0 = (Returned, ed)"
    and "h = unat (height (info_block ed))" and "w = unat (width (info_block ed))"
    and "ed' = snd (drawCross blue green red ed)"
  shows "fst (drawCross blue green red ed) = Returned
       \<and> file_header ed' = file_header ed \<and> info_block ed' = info_block ed
       \<and> fileWasRead ed' = fileWasRead ed
       \<and> length (pixels ed') = length (pixels ed)
       \<and> (\<forall>i<length (pixels ed).
             length (pixels ed' ! i) = length (pixels ed ! i)
             \<and> (\<forall>j<length (pixels ed ! i).
                   pixels ed' ! i ! j =
                     (if i < min h w \<and> (j = i \<or> j = w - 1 - i)
                      then push_bit 16 (ucast blue) OR push_bit 8 (ucast green) OR ucast red
                      else pixels ed ! i ! j)))"
proof -
  note g = read_Returned_grid[OF assms(1)]
  have gf: "grid_fits ed" by (rule grid_fits_after_read[OF assms(1)])
  have "\<not> int_counter_overflows (info_block ed)"
    using read_Returned(4)[OF assms(1)] by (simp add: g(2))
  then have hb: "unat (height (info_block ed)) < 2 ^ 31"
    by (simp add: int_counter_overflows_def)
  have len: "length (pixels ed) = h" and fits: "\<forall>r\<in>set (pixels ed). w \<le> length r"
    using gf assms(2,3) by (simp_all add: grid_fits_def list_all_iff)
  let ?c = "pack_color blue green red"
  let ?px = "map (\<lambda>k. if k < min h w then cross_row w k ?c (pixels ed ! k) else pixels ed ! k) [0..<h]"
  have d: "drawCross blue green red ed = (Returned, ed\<lparr> pixels := ?px \<rparr>)"
    by (rule drawCross_closed[OF g(3) gf hb assms(2,3)])
  have cells: "length (?px ! i) = length (pixels ed ! i)
       \<and> (\<forall>j<length (pixels ed ! i).
             ?px ! i ! j = (if i < min h w \<and> (j = i \<or> j = w - 1 - i) then ?c else pixels ed ! i ! j))"
    if i: "i < length (pixels ed)" for i
  proof (cases "i < min h w")
    case True
    have wl: "w \<le> length (pixels ed ! i)" using fits i by simp
    have iw: "i < w" using True by simp
    show ?thesis
      using i len True by (simp add: length_cross_row cross_row_nth[OF iw wl])
  next
    case False
    then show ?thesis using i len by simp
  qed
  have e: "ed' = ed\<lparr> pixels := ?px \<rparr>" unfolding assms(4) d by simp
  have pe: "pixels ed' = ?px" unfolding e by simp
  have f: "fst (drawCross blue green red ed) = Returned" unfolding d by simp
  have hdr: "file_header ed' = file_header ed" "info_block ed' = info_block ed"
    "fileWasRead ed' = fileWasRead ed" unfolding e by simp_all
  have l: "length (pixels ed') = length (pixels ed)" unfolding pe by (simp add: len)
  have cells': "\<forall>i<length (pixels ed).
             length (pixels ed' ! i) = length (pixels ed ! i)
             \<and> (\<forall>j<length (pixels ed ! i).
                   pixels ed' ! i ! j =
                     (if i < min h w \<and> (j = i \<or> j = w - 1 - i)
                      then push_bit 16 (ucast blue) OR push_bit 8 (ucast green) OR ucast red
                      else pixels ed ! i ! j))"
    using cells unfolding pe pack_color_def by blast
  from f hdr l cells' show ?thesis by (intro conjI)
qed

theorem drawCross_frame_witness:
  "read (Some bmp_3x2) unloaded_editor = (Returned, loaded_3x2)
   \<and> fst (drawCross 0 165 255 loaded_3x2) = Returned
   \<and> info_block (snd (drawCross 0 165 255 loaded_3x2)) = info_24bpp 3 2
   \<and> pixels (snd (drawCross 0 165 255 loaded_3x2)) ! 0 ! 2 = 0x00A5FF
   \<and> pixels (snd (drawCross 0 165 255 loaded_3x2)) ! 0 ! 1 = 0x0D0E0F"
proof -
  note t = drawCross_frame[OF read_3x2 refl refl refl, of 0 165 255]
  have i0: "0 < length (pixels loaded_3x2)" and j2: "2 < length (pixels loaded_3x2 ! 0)"
    and j1: "1 < length (pixels loaded_3x2 ! 0)"
    by (simp_all add: loaded_3x2_def)
  from t have cells: "\<forall>i<length (pixels loaded_3x2). \<forall>j<length (pixels loaded_3x2 ! i).
      pixels (snd (drawCross 0 165 255 loaded_3x2)) ! i ! j =
        (if i < min (unat (height (info_block loaded_3x2)))
                    (unat (width (info_block loaded_3x2)))
              \<and> (j = i \<or> j = unat (width (info_block loaded_3x2)) - 1 - i)
         then push_bit 16 (ucast (0::byte)) OR push_bit 8 (ucast (165::byte)) OR ucast (255::byte)
         else pixels loaded_3x2 ! i ! j)"
    by blast
  have a: "pixels (snd (drawCross 0 165 255 loaded_3x2)) ! 0 ! 2 = 0x00A5FF"
    using cells[rule_format, OF i0 j2] by (simp add: loaded_3x2_def info_24bpp_def)
  have b: "pixels (snd (drawCross 0 165 255 loaded_3x2)) ! 0 ! 1 = 0x0D0E0F"
    using cells[rule_format, OF i0 j1] by (simp add: loaded_3x2_def info_24bpp_def)
  from t have f: "fst (drawCross 0 165 255 loaded_3x2) = Returned" by blast
  from t have ib: "info_block (snd (drawCross 0 165 255 loaded_3x2)) = info_block loaded_3x2"
    by blast
  then have ib': "info_block (snd (drawCross 0 165 255 loaded_3x2)) = info_24bpp 3 2"
    by (simp add: loaded_3x2_def)
  from read_3x2 f ib' a b show ?thesis by (intro conjI)
qed

subsection \<open>A row of 178956970 pixels\<close>

lemma save_any_stride:
  assumes "grid_fits ed" and "unat (height (info_block ed)) < 2 ^ 31"
    and "unat (width (info_block ed)) < 2 ^ 31"
    and "w = unat (width (info_block ed))" and "stride = unat (row_stride (info_block ed))"
  shows "save ed = (Returned, bytes_of_file_header (file_header ed)
                      @ bytes_of_info_block (info_block ed)
                      @ concat (map (saved_row w stride) (rev (pixels ed))))"
proof -
  let ?b = "info_block ed"
  let ?h = "unat (height ?b)"
  have len: "length (pixels ed) = ?h" and fits: "\<forall>r\<in>set (pixels ed). w \<le> length r"
    using assms(1,4) by (simp_all add: grid_fits_def list_all_iff)
  have wb: "\<not> 2 ^ 31 \<le> unat (width ?b)" using assms(3) by simp
  have n: "nat (sint (height ?b - 1) + 1) = ?h"
    by (simp add: sint_height_minus_1[OF assms(2)])
  have fits': "\<forall>i<?h. w \<le> length (pixels ed ! i)" using fits len by simp
  have "save_rows ?h w stride (pixels ed)
      = Some (concat (map (\<lambda>y. saved_row w stride (pixels ed ! y)) (rev [0..<?h])))"
    using save_rows_closed[OF _ fits', of stride] len by simp
  moreover have "map (\<lambda>y. saved_row w stride (pixels ed ! y)) (rev [0..<?h])
      = map (saved_row w stride) (rev (pixels ed))"
    using rev_rows[of "saved_row w stride" "pixels ed"] by (simp only: len)
  ultimately have rows: "save_rows ?h w stride (pixels ed)
      = Some (concat (map (saved_row w stride) (rev (pixels ed))))" by (simp only:)
  show ?thesis
    using wb by (simp add: save_def Let_def n assms(4,5)[symmetric] rows)
qed

lemma cell_bytes_0: "cell_bytes 0 = [0, 0, 0]"
  by (simp add: cell_bytes_def blue_of_def green_of_def red_of_def)

lemma concat_replicate_zeros: "concat (replicate n [0, 0, 0 :: byte]) = replicate (3 * n) 0"
proof (induction n)
  case 0
  then show ?case by simp
next
  case (Suc n)
  have "3 * Suc n = 3 + 3 * n" by simp
  then have "replicate (3 * Suc n) (0::byte) = replicate 3 0 @ replicate (3 * n) 0"
    by (simp only: replicate_add)
  then show ?case using Suc by (simp add: replicate_3)
qed

lemma saved_row_zeros:
  assumes "stride \<le> 3 * w"
  shows "saved_row w stride (replicate w 0) = replicate (3 * w) 0"
  using assms by (simp add: saved_row_def cell_bytes_0 concat_replicate_zeros)

lemma row_stride_wide: "unat (row_stride (info_24bpp 178956970 1)) = 0"
  by (simp add: row_stride_def info_24bpp_def)

lemma grid_fits_wide: "grid_fits wide_loaded"
  by (simp add: grid_fits_def wide_loaded_def info_24bpp_def)

lemma save_wide:
  "save wide_loaded = (Returned, bmp_headers header_bm (info_24bpp 178956970 1)
                                  @ replicate 536870910 0)"
proof -
  have h: "unat (height (info_block wide_loaded)) < 2 ^ 31"
    and w: "unat (width (info_block wide_loaded)) < 2 ^ 31"
    and w': "178956970 = unat (width (info_block wide_loaded))"
    and s: "0 = unat (row_stride (info_block wide_loaded))"
    by (simp_all add: wide_loaded_def row_stride_wide) (simp_all add: info_24bpp_def)
  have r: "saved_row 178956970 0 (replicate 178956970 0) = replicate 536870910 0"
    using saved_row_zeros[of 0 178956970] by simp
  show ?thesis
    unfolding save_any_stride[OF grid_fits_wide h w w' s]
    by (simp add: wide_loaded_def bmp_headers_def r)
qed

lemma disk_row_zeros:
  assumes "\<forall>q\<ge>p. byte_at data q = 0"
  shows "disk_row data p w = replicate w 0"
proof -
  have "pixel_at data (p + 3 * j) = 0" for j
    using assms by (simp add: pixel_at_def pack_color_def)
  then have "disk_row data p w = map (\<lambda>j. 0) [0..<w]" by (simp add: disk_row_def)
  then show ?thesis by (simp add: map_replicate_const)
qed

lemma rows_stored_one_zero_row:
  assumes "\<forall>q\<ge>p. byte_at data q = 0"
  shows "rows_stored data p stride 0 1 w (resize 1 w []) = [replicate w 0]"
  by (simp add: rows_stored_def resize_def disk_row_zeros[OF assms])

lemma length_wide_bmp: "length wide_bmp = 536870966"
  by (simp add: wide_bmp_def length_bmp_headers)

lemma wide_bmp_zero_from_54: "\<forall>q\<ge>54. byte_at wide_bmp q = 0"
  by (simp add: byte_at_def wide_bmp_def nth_append length_bmp_headers)

lemma headers_of_wide_bmp:
  "file_header_in wide_bmp = header_bm" "info_block_in wide_bmp = info_24bpp 178956970 1"
  unfolding wide_bmp_def by (rule file_header_in_serialized, rule info_block_in_serialized)

lemma read_wide: "read (Some wide_bmp) unloaded_editor = (Returned, wide_loaded)"
proof -
  note fh = headers_of_wide_bmp(1) and ib = headers_of_wide_bmp(2)
  have 1: "54 \<le> length wide_bmp" by (simp add: length_wide_bmp)
  have 2: "type_of_file (file_header_in wide_bmp) = 0x4D42" by (simp add: fh header_bm_def)
  have 3: "color_depth_in_bits (info_block_in wide_bmp) = 24" by (simp add: ib info_24bpp_def)
  have 4: "\<not> int_counter_overflows (info_block_in wide_bmp)"
    by (simp add: ib info_24bpp_def int_counter_overflows_def)
  have 5: "old_rows_fit (info_block_in wide_bmp) unloaded_editor"
    by (simp add: old_rows_fit_def unloaded_editor_def)
  have h: "1 = unat (height (info_block_in wide_bmp))"
    and w: "178956970 = unat (width (info_block_in wide_bmp))"
    by (simp_all add: ib info_24bpp_def)
  have off: "unat (offset_to_pixel_data (file_header_in wide_bmp)) = 54"
    by (simp add: fh header_bm_def)
  have px: "pixels unloaded_editor = []" by (simp add: unloaded_editor_def)
  have g: "rows_stored wide_bmp (unat (offset_to_pixel_data (file_header_in wide_bmp)))
             (spec_stride 178956970) 0 1 178956970 (resize 1 178956970 (pixels unloaded_editor))
           = [replicate 178956970 0]"
    unfolding off px by (rule rows_stored_one_zero_row[OF wide_bmp_zero_from_54])
  from read_returns[OF 1 2 3 4 5 h w]
  have "read (Some wide_bmp) unloaded_editor =
     (Returned, unloaded_editor\<lparr> file_header := file_header_in wide_bmp,
                   info_block := info_block_in wide_bmp,
                   pixels := [replicate 178956970 0], fileWasRead := True \<rparr>)"
    by (simp only: g)
  then show ?thesis by (simp add: fh ib unloaded_editor_def wide_loaded_def)
qed

lemma well_formed_wide_bmp: "well_formed_bmp wide_bmp"
proof -
  have s: "spec_stride 178956970 = 536870912" by (simp add: spec_stride_def)
  have z: "wide_bmp ! 536870964 = 0" "wide_bmp ! 536870965 = 0"
    by (simp_all add: wide_bmp_def nth_append length_bmp_headers)
  show ?thesis
    unfolding well_formed_bmp_def headers_of_wide_bmp Let_def
    by (simp add: header_bm_def info_24bpp_def s length_wide_bmp z)
qed

text \<open>
  C1. The claim is that \<open>read\<close> followed by \<open>save\<close> reproduces the pixel data section of
  every well-formed stream, whatever its width. On the well-formed image of one row of
  178956970 pixels \<open>read\<close> returns, and \<open>save\<close> then writes the 54 header bytes followed
  by 536870910 bytes: the two padding bytes of the row are missing, so the pixel data
  section written is not the one read.
\<close>

theorem roundtrip_drops_padding_of_wide_row:
  "well_formed_bmp wide_bmp
   \<and> fst (read (Some wide_bmp) unloaded_editor) = Returned
   \<and> save (snd (read (Some wide_bmp) unloaded_editor))
       = (Returned, take 54 wide_bmp @ replicate 536870910 0)
   \<and> drop 54 wide_bmp = replicate 536870912 0
   \<and> snd (save (snd (read (Some wide_bmp) unloaded_editor))) \<noteq> wide_bmp"
proof -
  have t: "take 54 wide_bmp = bmp_headers header_bm (info_24bpp 178956970 1)"
    and d: "drop 54 wide_bmp = replicate 536870912 0"
    by (simp_all add: wide_bmp_def length_bmp_headers)
  have s: "save (snd (read (Some wide_bmp) unloaded_editor))
       = (Returned, take 54 wide_bmp @ replicate 536870910 0)"
    unfolding read_wide t by (simp add: save_wide)
  have "length (snd (save (snd (read (Some wide_bmp) unloaded_editor)))) = 536870964"
    unfolding s t by (simp add: length_bmp_headers)
  then have n: "snd (save (snd (read (Some wide_bmp) unloaded_editor))) \<noteq> wide_bmp"
    using length_wide_bmp by auto
  have r: "fst (read (Some wide_bmp) unloaded_editor) = Returned" by (simp add: read_wide)
  from well_formed_wide_bmp r s d n show ?thesis by (intro conjI)
qed

text \<open>
  C9. The claim is that \<open>save\<close> ends every row with \<open>stride - 3 * width\<close> zero bytes and
  writes \<open>stride * height\<close> pixel bytes. On the object that \<open>read\<close> returns for the image
  of one row of 178956970 pixels, \<open>row_stride\<close> is computed as 0: \<open>save\<close> writes the
  536870910 cell bytes of the row and no padding, where the stride is 536870912 and two
  zero bytes are due.
\<close>

theorem save_skips_padding_of_wide_row:
  "read (Some wide_bmp) unloaded_editor = (Returned, wide_loaded)
   \<and> grid_fits wide_loaded
   \<and> color_depth_in_bits (info_block wide_loaded) = 24
   \<and> unat (row_stride (info_block wide_loaded)) = 0
   \<and> spec_stride (unat (width (info_block wide_loaded)))
         - 3 * unat (width (info_block wide_loaded)) = 2
   \<and> spec_stride (unat (width (info_block wide_loaded)))
         * unat (height (info_block wide_loaded)) = 536870912
   \<and> save wide_loaded
       = (Returned, bmp_headers header_bm (info_24bpp 178956970 1) @ replicate 536870910 0)
   \<and> length (drop 54 (snd (save wide_loaded))) = 536870910"
proof -
  have ib: "info_block wide_loaded = info_24bpp 178956970 1" by (simp add: wide_loaded_def)
  have d: "color_depth_in_bits (info_block wide_loaded) = 24"
    and p: "spec_stride (unat (width (info_block wide_loaded)))
         - 3 * unat (width (info_block wide_loaded)) = 2"
    and l: "spec_stride (unat (width (info_block wide_loaded)))
         * unat (height (info_block wide_loaded)) = 536870912"
    unfolding ib by (simp_all add: info_24bpp_def spec_stride_def)
  have st: "unat (row_stride (info_block wide_loaded)) = 0"
    unfolding ib by (rule row_stride_wide)
  have n: "length (drop 54 (snd (save wide_loaded))) = 536870910"
    unfolding save_wide by (simp add: length_bmp_headers)
  from read_wide grid_fits_wide d st p l save_wide n show ?thesis by (intro conjI)
qed

end
